theory Spec2Isabelle
  imports Complex_Main
begin

section \<open>precise-money core: exact decimal arithmetic over BigInt\<close>

text \<open>
  A shallow embedding of \<^verbatim>\<open>core.ts\<close> of \<^verbatim>\<open>@defy-labs/precise-money\<close>.
  A JavaScript \<^verbatim>\<open>bigint\<close> is an \<^typ>\<open>int\<close>. A JavaScript \<^verbatim>\<open>number\<close> is a value of
  the datatype \<open>number\<close> below: a finite value (a rational, which covers every finite
  double; the operations the code applies to numbers, namely comparison with integer
  constants, \<^verbatim>\<open>Number.isInteger\<close>, \<^verbatim>\<open>Number.isFinite\<close>, \<^verbatim>\<open>Math.trunc\<close>,
  \<^verbatim>\<open>Math.min\<close>, \<^verbatim>\<open>Math.max\<close> and \<^verbatim>\<open>BigInt(...)\<close>, are exact on doubles), the two
  infinities, or NaN. A thrown \<^verbatim>\<open>Error\<close> is a value \<open>Inl e\<close> of the result type
  \<open>error + 'a\<close>. Strings are lists of 8-bit code units.
\<close>

subsection \<open>Errors, rounding modes, numbers\<close>

datatype error =
    EmptyAmount          \<comment> \<open>\<^verbatim>\<open>'empty amount'\<close>\<close>
  | InvalidAmount        \<comment> \<open>\<^verbatim>\<open>'invalid amount: ...'\<close>\<close>
  | InvalidDecimals      \<comment> \<open>\<^verbatim>\<open>'...: decimals must be non-negative integer'\<close>\<close>
  | InvalidScale         \<comment> \<open>\<^verbatim>\<open>'scale must be a non-negative integer'\<close>\<close>
  | Pow10Argument        \<comment> \<open>\<^verbatim>\<open>'pow10 expects non-negative integer'\<close>\<close>
  | DivisionByZero       \<comment> \<open>\<^verbatim>\<open>'division by zero'\<close>\<close>
  | InvalidBps           \<comment> \<open>\<^verbatim>\<open>'slippageBps must be >= 0'\<close>\<close>
  | InvalidLotSize       \<comment> \<open>\<^verbatim>\<open>'lotSizeMinor must be > 0'\<close>\<close>
  | NegativePrice        \<comment> \<open>\<^verbatim>\<open>'negative price not allowed'\<close>\<close>
  | RangeError           \<comment> \<open>thrown by \<^verbatim>\<open>BigInt(x)\<close> when the number \<^verbatim>\<open>x\<close> is not an integer\<close>
  | SyntaxError          \<comment> \<open>thrown by \<^verbatim>\<open>BigInt(s)\<close> when the string \<^verbatim>\<open>s\<close> is not a numeral\<close>

datatype Rounding = Floor | Ceil | Round | Bankers

datatype number = Fin rat | PosInf | NegInf | NaN

fun isInteger :: "number \<Rightarrow> bool" where
  "isInteger (Fin r) = (rat_of_int \<lfloor>r\<rfloor> = r)"
| "isInteger _ = False"

fun isFinite :: "number \<Rightarrow> bool" where
  "isFinite (Fin r) = True"
| "isFinite _ = False"

text \<open>The comparisons \<^verbatim>\<open>x < 0\<close> and \<^verbatim>\<open>x > 0\<close> on numbers; both are false on NaN.\<close>

fun lt0 :: "number \<Rightarrow> bool" where
  "lt0 (Fin r) = (r < 0)"
| "lt0 NegInf = True"
| "lt0 _ = False"

fun gt0 :: "number \<Rightarrow> bool" where
  "gt0 (Fin r) = (0 < r)"
| "gt0 PosInf = True"
| "gt0 _ = False"

text \<open>\<^verbatim>\<open>Math.trunc\<close>: the integer part, rounding toward zero.\<close>

fun trunc :: "number \<Rightarrow> number" where
  "trunc (Fin r) = Fin (rat_of_int (if r < 0 then \<lceil>r\<rceil> else \<lfloor>r\<rfloor>))"
| "trunc x = x"

text \<open>\<^verbatim>\<open>Math.min\<close> and \<^verbatim>\<open>Math.max\<close> of two numbers: NaN if either is NaN.\<close>

fun num_less :: "number \<Rightarrow> number \<Rightarrow> bool" where
  "num_less NaN _ = False"
| "num_less _ NaN = False"
| "num_less (Fin a) (Fin b) = (a < b)"
| "num_less NegInf NegInf = False"
| "num_less NegInf _ = True"
| "num_less _ PosInf = False"
| "num_less PosInf _ = False"
| "num_less (Fin a) NegInf = False"

definition Math_min :: "number \<Rightarrow> number \<Rightarrow> number" where
  "Math_min a b = (if a = NaN \<or> b = NaN then NaN else if num_less b a then b else a)"

definition Math_max :: "number \<Rightarrow> number \<Rightarrow> number" where
  "Math_max a b = (if a = NaN \<or> b = NaN then NaN else if num_less a b then b else a)"

text \<open>\<^verbatim>\<open>BigInt(x)\<close> for a number \<^verbatim>\<open>x\<close>: a RangeError unless \<^verbatim>\<open>x\<close> is an integer.\<close>

fun BigInt_num :: "number \<Rightarrow> error + int" where
  "BigInt_num (Fin r) = (if rat_of_int \<lfloor>r\<rfloor> = r then Inr \<lfloor>r\<rfloor> else Inl RangeError)"
| "BigInt_num _ = Inl RangeError"

text \<open>
  A number that passed the guard \<^verbatim>\<open>Number.isInteger(n) && n >= 0\<close> is a natural number;
  \<open>toIndex\<close> reads it.
\<close>

fun toIndex :: "number \<Rightarrow> nat" where
  "toIndex (Fin r) = nat \<lfloor>r\<rfloor>"
| "toIndex _ = 0"

abbreviation numOf :: "nat \<Rightarrow> number" where
  "numOf k \<equiv> Fin (rat_of_nat k)"

subsection \<open>BigInt division and remainder\<close>

text \<open>
  The operators \<^verbatim>\<open>/\<close> and \<^verbatim>\<open>%\<close> on BigInt truncate toward zero, and the remainder
  takes the sign of the dividend. (They throw on a zero divisor; every use in the code
  is behind a guard or has a positive constant as divisor.)
\<close>

definition tdiv :: "int \<Rightarrow> int \<Rightarrow> int" where
  "tdiv a b = sgn a * sgn b * (\<bar>a\<bar> div \<bar>b\<bar>)"

definition tmod :: "int \<Rightarrow> int \<Rightarrow> int" where
  "tmod a b = sgn a * (\<bar>a\<bar> mod \<bar>b\<bar>)"

definition absBig :: "int \<Rightarrow> int" where
  "absBig x = (if x < 0 then - x else x)"

subsection \<open>The rounding engine\<close>

definition divRound :: "int \<Rightarrow> int \<Rightarrow> Rounding \<Rightarrow> error + int" where
  "divRound n d mode =
     (if d = 0 then Inl DivisionByZero
      else let q = tdiv n d; r = tmod n d in
        if r = 0 then Inr q
        else let sign = (if (n > 0) = (d > 0) then 1 else - 1 :: int) in
          (case mode of
             Floor \<Rightarrow> Inr (if sign < 0 then q - 1 else q)
           | Ceil \<Rightarrow> Inr (if sign > 0 then q + 1 else q)
           | Round \<Rightarrow> Inr (if absBig (r * 2) \<ge> absBig d then q + sign else q)
           | Bankers \<Rightarrow>
               (let twice = absBig (r * 2) in
                  if twice > absBig d then Inr (q + sign)
                  else if twice < absBig d then Inr q
                  else Inr (if tmod q 2 = 0 then q else q + sign))))"

definition roundAdjust :: "int \<Rightarrow> int \<Rightarrow> Rounding \<Rightarrow> int" where
  "roundAdjust base sign mode =
     (case mode of
        Ceil \<Rightarrow> (if sign > 0 then base + 1 else base)
      | Round \<Rightarrow> base + sign
      | Bankers \<Rightarrow> (if tmod base 2 = 0 then base else base + sign)
      | Floor \<Rightarrow> base)"

text \<open>An operand typed \<^verbatim>\<open>bigint | number\<close>, converted by \<^verbatim>\<open>BigInt(...)\<close> when a number.\<close>

datatype bigOrNum = Big int | Num number

fun toBig :: "bigOrNum \<Rightarrow> error + int" where
  "toBig (Big b) = Inr b"
| "toBig (Num x) = BigInt_num x"

definition mulDiv :: "int \<Rightarrow> bigOrNum \<Rightarrow> bigOrNum \<Rightarrow> Rounding \<Rightarrow> error + int" where
  "mulDiv a b c mode =
     (case toBig b of Inl e \<Rightarrow> Inl e | Inr bb \<Rightarrow>
      case toBig c of Inl e \<Rightarrow> Inl e | Inr cc \<Rightarrow>
        if cc = 0 then Inl DivisionByZero else divRound (a * bb) cc mode)"

subsection \<open>Powers of ten, scaling, basis points, lots\<close>

text \<open>
  \<^verbatim>\<open>pow10\<close> is called with a copy or a difference of decimals that have passed the
  guard \<^verbatim>\<open>Number.isInteger\<close>, so its argument is an integer here; its own guard against
  a negative argument is kept. Past the guards, decimals are read as natural numbers.
\<close>

definition BPS_BASE :: int where
  "BPS_BASE = 10000"

definition POW10 :: "int list" where
  "POW10 = map (\<lambda>i. 10 ^ i) [0..<39]"

definition pow10 :: "int \<Rightarrow> error + int" where
  "pow10 n =
     (if n < 0 then Inl Pow10Argument
      else Inr (if nat n < length POW10 then POW10 ! nat n else 10 ^ nat n))"

definition scaleUnits :: "int \<Rightarrow> number \<Rightarrow> number \<Rightarrow> Rounding option \<Rightarrow> error + int" where
  "scaleUnits u fromDec toDec opts =
     (if \<not> isInteger fromDec \<or> \<not> isInteger toDec \<or> lt0 fromDec \<or> lt0 toDec
      then Inl InvalidDecimals
      else let f = toIndex fromDec; t = toIndex toDec in
        if f = t then Inr u
        else if f < t then
          (case pow10 (int t - int f) of Inl e \<Rightarrow> Inl e | Inr p \<Rightarrow> Inr (u * p))
        else
          (case pow10 (int f - int t) of Inl e \<Rightarrow> Inl e
           | Inr p \<Rightarrow> divRound u p (case opts of None \<Rightarrow> Floor | Some m \<Rightarrow> m)))"

definition applySlippage :: "int \<Rightarrow> number \<Rightarrow> error + int" where
  "applySlippage amountOutMinor slippageBps =
     (if \<not> isFinite slippageBps \<or> lt0 slippageBps then Inl InvalidBps
      else case BigInt_num (trunc slippageBps) of Inl e \<Rightarrow> Inl e
        | Inr t \<Rightarrow> (let num = BPS_BASE - t in Inr (tdiv (amountOutMinor * num) BPS_BASE)))"

definition clampBps :: "number \<Rightarrow> number" where
  "clampBps bps = Math_max (numOf 0) (Math_min (numOf 10000) (trunc bps))"

definition slippageDown :: "int \<Rightarrow> number \<Rightarrow> error + int" where
  "slippageDown amountMinor bps =
     (case BigInt_num (clampBps bps) of Inl e \<Rightarrow> Inl e
      | Inr b \<Rightarrow> Inr (tdiv (amountMinor * (BPS_BASE - b)) BPS_BASE))"

definition slippageUp :: "int \<Rightarrow> number \<Rightarrow> error + int" where
  "slippageUp amountMinor bps =
     (case BigInt_num (clampBps bps) of Inl e \<Rightarrow> Inl e
      | Inr b \<Rightarrow>
          (let num = amountMinor * (BPS_BASE + b);
               q = tdiv num BPS_BASE;
               r = tmod num BPS_BASE
           in Inr (if r = 0 then q else q + 1)))"

text \<open>
  The \<^verbatim>\<open>while\<close> loop of \<^verbatim>\<open>splitAmount\<close>, on the running remainder \<^verbatim>\<open>left\<close> and the chunks
  pushed so far. The loop is reached only behind the guard \<^verbatim>\<open>lotSizeMinor > 0\<close>; the
  guard is repeated in the condition here, so that the recursion ends on every
  argument. Behind the guard the condition is the one of the source (lemma
  \<open>splitLoop_guarded\<close>).
\<close>

function splitLoop :: "int \<Rightarrow> int \<Rightarrow> int list \<Rightarrow> int \<times> int list" where
  "splitLoop lotSizeMinor left chunks =
     (if 0 < lotSizeMinor \<and> left \<ge> lotSizeMinor
      then splitLoop lotSizeMinor (left - lotSizeMinor) (chunks @ [lotSizeMinor])
      else (left, chunks))"
  by pat_completeness auto
termination
  by (relation "measure (\<lambda>(lot, left, chunks). nat left)") auto

definition splitAmount :: "int \<Rightarrow> int \<Rightarrow> error + int list" where
  "splitAmount totalMinor lotSizeMinor =
     (if lotSizeMinor \<le> 0 then Inl InvalidLotSize
      else case splitLoop lotSizeMinor totalMinor [] of
        (left, chunks) \<Rightarrow> Inr (if left > 0 then chunks @ [left] else chunks))"

subsection \<open>Strings\<close>

text \<open>
  White space as \<^verbatim>\<open>\s\<close> and \<^verbatim>\<open>trim\<close> see it, among code units below 256: tab, line feed,
  vertical tab, form feed, carriage return, space and no-break space.
\<close>

definition isSpace :: "char \<Rightarrow> bool" where
  "isSpace c = (c \<in> {CHR 0x09, CHR 0x0A, CHR 0x0B, CHR 0x0C, CHR 0x0D, CHR '' '', CHR 0xA0})"

definition isDigit :: "char \<Rightarrow> bool" where
  "isDigit c = (48 \<le> (of_char c :: nat) \<and> (of_char c :: nat) \<le> 57)"

definition digit_val :: "char \<Rightarrow> nat" where
  "digit_val c = of_char c - 48"

definition digit_char :: "nat \<Rightarrow> char" where
  "digit_char n = char_of (48 + n)"

text \<open>\<^verbatim>\<open>/^\d+$/.test(s)\<close>\<close>

definition isDigits :: "string \<Rightarrow> bool" where
  "isDigits s = (s \<noteq> [] \<and> list_all isDigit s)"

definition trim :: "string \<Rightarrow> string" where
  "trim s = rev (dropWhile isSpace (rev (dropWhile isSpace s)))"

text \<open>\<^verbatim>\<open>s.replace(/\s+/g, '').replace(/_/g, '')\<close> and \<^verbatim>\<open>s.replace(/[.,\s]/g, '')\<close>\<close>

definition removeSpacesUnderscores :: "string \<Rightarrow> string" where
  "removeSpacesUnderscores s = filter (\<lambda>c. c \<noteq> CHR ''_'') (filter (\<lambda>c. \<not> isSpace c) s)"

definition removeSeparators :: "string \<Rightarrow> string" where
  "removeSeparators s = filter (\<lambda>c. \<not> (c = CHR ''.'' \<or> c = CHR '','' \<or> isSpace c)) s"

text \<open>\<^verbatim>\<open>s.lastIndexOf(c)\<close>: the index of the last occurrence, \<open>-1\<close> when there is none.\<close>

fun lastIndexOf_from :: "int \<Rightarrow> string \<Rightarrow> char \<Rightarrow> int \<Rightarrow> int" where
  "lastIndexOf_from i [] c found = found"
| "lastIndexOf_from i (x # xs) c found = lastIndexOf_from (i + 1) xs c (if x = c then i else found)"

definition lastIndexOf :: "string \<Rightarrow> char \<Rightarrow> int" where
  "lastIndexOf s c = lastIndexOf_from 0 s c (- 1)"

text \<open>\<^verbatim>\<open>s.split(c)\<close> for a one-character separator: never an empty array.\<close>

fun split :: "string \<Rightarrow> char \<Rightarrow> string list" where
  "split [] c = [[]]"
| "split (x # xs) c =
     (if x = c then [] # split xs c
      else (case split xs c of p # ps \<Rightarrow> (x # p) # ps | [] \<Rightarrow> [[x]]))"

text \<open>\<^verbatim>\<open>a || b\<close> on strings: the empty string is falsy.\<close>

definition orElse :: "string \<Rightarrow> string \<Rightarrow> string" where
  "orElse a b = (if a = [] then b else a)"

text \<open>
  \<^verbatim>\<open>s.replace(/^0+(?=\d)/, '')\<close>: a leading run of zeros is removed when a digit
  follows it; when no digit follows the whole run, the match backtracks and the last
  zero of the run is the digit that follows.
\<close>

definition stripLeadingZeros :: "string \<Rightarrow> string" where
  "stripLeadingZeros s =
     (let zeros = takeWhile (\<lambda>c. c = CHR ''0'') s; rest = dropWhile (\<lambda>c. c = CHR ''0'') s in
      if zeros = [] then s
      else if rest \<noteq> [] \<and> isDigit (hd rest) then rest
      else if length zeros \<ge> 2 then CHR ''0'' # rest
      else s)"

text \<open>\<^verbatim>\<open>s.slice(a, b)\<close> and \<^verbatim>\<open>s.slice(a)\<close>: a negative index counts from the end.\<close>

definition relIndex :: "nat \<Rightarrow> int \<Rightarrow> nat" where
  "relIndex len k = (if k < 0 then nat (max (int len + k) 0) else min (nat k) len)"

definition slice :: "string \<Rightarrow> int \<Rightarrow> int \<Rightarrow> string" where
  "slice s a b =
     (let from = relIndex (length s) a; to = relIndex (length s) b
      in take (to - from) (drop from s))"

definition slice_from :: "string \<Rightarrow> int \<Rightarrow> string" where
  "slice_from s a = drop (relIndex (length s) a) s"

definition padStart :: "nat \<Rightarrow> char \<Rightarrow> string \<Rightarrow> string" where
  "padStart n c s = replicate (n - length s) c @ s"

text \<open>Decimal numerals: the value of a digit string, and \<^verbatim>\<open>toString\<close> of a BigInt.\<close>

definition dec_val :: "string \<Rightarrow> nat" where
  "dec_val s = foldl (\<lambda>a c. 10 * a + digit_val c) 0 s"

fun nat_digits :: "nat \<Rightarrow> string" where
  "nat_digits n = (if n < 10 then [digit_char n] else nat_digits (n div 10) @ [digit_char (n mod 10)])"

definition toString :: "int \<Rightarrow> string" where
  "toString i = (if i < 0 then CHR ''-'' # nat_digits (nat (- i)) else nat_digits (nat i))"

text \<open>
  \<^verbatim>\<open>BigInt(s)\<close> and \<^verbatim>\<open>Number(s)\<close> for a string \<^verbatim>\<open>s\<close>, on the strings that reach them in
  this code: a non-empty run of decimal digits gives its value. Any other string is
  a SyntaxError for \<^verbatim>\<open>BigInt\<close> and NaN for \<^verbatim>\<open>Number\<close> here; the callers validate their
  strings first (lemmas \<open>normalizeAmountInput_digits\<close> below), so no such string
  arrives.
\<close>

definition BigInt_str :: "string \<Rightarrow> error + int" where
  "BigInt_str s = (if isDigits s then Inr (int (dec_val s)) else Inl SyntaxError)"

definition Number_str :: "string \<Rightarrow> number" where
  "Number_str s = (if isDigits s then Fin (rat_of_nat (dec_val s)) else NaN)"

subsection \<open>Parsing amounts\<close>

record normalized =
  sign :: int
  int_digits :: string
  frac_digits :: string

text \<open>
  \<open>normalizeAmountInput\<close> takes the string form of its argument (a number argument is
  first converted by \<^verbatim>\<open>String\<close>, which is not modelled). \<open>normalizeParts\<close> is the second
  half of its body, from the detection of the decimal separator on, applied to the
  sign and to the string with sign, spaces and underscores removed.
\<close>

definition normalizeParts :: "int \<Rightarrow> string \<Rightarrow> error + normalized" where
  "normalizeParts sg s =
     (let lastDot = lastIndexOf s (CHR ''.'');
          lastComma = lastIndexOf s (CHR '','');
          decSep = (if lastDot \<ge> 0 \<or> lastComma \<ge> 0
                    then Some (if lastDot > lastComma then CHR ''.'' else CHR '','')
                    else None)
      in case decSep of
           Some sep \<Rightarrow>
             (let parts = split s sep;
                  intPart = removeSeparators (orElse (hd parts) ''0'');
                  fracPart = removeSeparators (concat (tl parts))
              in if \<not> isDigits intPart \<or> (fracPart \<noteq> [] \<and> \<not> isDigits fracPart)
                 then Inl InvalidAmount
                 else Inr \<lparr>sign = sg,
                           int_digits = orElse (stripLeadingZeros intPart) ''0'',
                           frac_digits = fracPart\<rparr>)
         | None \<Rightarrow>
             (let digits = removeSeparators s
              in if \<not> isDigits digits then Inl InvalidAmount
                 else Inr \<lparr>sign = sg,
                           int_digits = orElse (stripLeadingZeros digits) ''0'',
                           frac_digits = []\<rparr>))"

definition normalizeAmountInput :: "string \<Rightarrow> error + normalized" where
  "normalizeAmountInput x =
     (let s0 = trim x in
      if s0 = [] then Inl EmptyAmount
      else if hd s0 = CHR ''+'' then normalizeParts 1 (removeSpacesUnderscores (tl s0))
      else if hd s0 = CHR ''-'' then normalizeParts (- 1) (removeSpacesUnderscores (tl s0))
      else normalizeParts 1 (removeSpacesUnderscores s0))"

subsection \<open>The minor-unit codec\<close>

definition toMinor :: "string \<Rightarrow> number \<Rightarrow> Rounding option \<Rightarrow> error + int" where
  "toMinor human decimals opts =
     (if \<not> isInteger decimals \<or> lt0 decimals then Inl InvalidDecimals
      else case normalizeAmountInput human of Inl e \<Rightarrow> Inl e
        | Inr n \<Rightarrow>
          (let d = toIndex decimals;
               mode = (case opts of None \<Rightarrow> Round | Some m \<Rightarrow> m);
               padded = slice (frac_digits n @ replicate (d + 1) CHR ''0'') 0 (int d + 1);
               core = slice padded 0 (int d);
               roundDigit = Number_str (orElse (slice padded (int d) (int d + 1)) ''0'')
           in case BigInt_str (int_digits n) of Inl e \<Rightarrow> Inl e
             | Inr bi \<Rightarrow>
           case pow10 (int d) of Inl e \<Rightarrow> Inl e
             | Inr p \<Rightarrow>
           case BigInt_str (orElse core ''0'') of Inl e \<Rightarrow> Inl e
             | Inr bc \<Rightarrow>
               (let base0 = bi * p + bc;
                    base = (if gt0 roundDigit then roundAdjust base0 1 mode else base0)
                in Inr (if sign n < 0 then - base else base))))"

definition fromMinor :: "int \<Rightarrow> number \<Rightarrow> error + string" where
  "fromMinor minor decimals =
     (if \<not> isInteger decimals \<or> lt0 decimals then Inl InvalidDecimals
      else let d = toIndex decimals;
               neg = (minor < 0);
               absMinor = (if neg then - minor else minor)
           in case pow10 (int d) of Inl e \<Rightarrow> Inl e
             | Inr scale \<Rightarrow>
               (let i = tdiv absMinor scale;
                    f = padStart d CHR ''0'' (toString (tmod absMinor scale))
                in Inr ((if neg then ''-'' else '''')
                        @ (if d = 0 then toString i else toString i @ ''.'' @ f))))"

subsection \<open>Prices\<close>

record priceRatio =
  num :: int
  den :: int

definition priceRatioDecimals :: "number \<Rightarrow> string \<Rightarrow> error + priceRatio" where
  "priceRatioDecimals quoteDecimals priceStr =
     (if \<not> isInteger quoteDecimals \<or> lt0 quoteDecimals then Inl InvalidDecimals
      else case normalizeAmountInput priceStr of Inl e \<Rightarrow> Inl e
        | Inr n \<Rightarrow>
          if sign n < 0 then Inl NegativePrice
          else let q = toIndex quoteDecimals in
            case BigInt_str (int_digits n @ slice (frac_digits n @ replicate q CHR ''0'') 0 (int q)) of
              Inl e \<Rightarrow> Inl e
            | Inr nu \<Rightarrow>
            case pow10 (int q) of Inl e \<Rightarrow> Inl e
            | Inr de \<Rightarrow> Inr \<lparr>num = nu, den = de\<rparr>)"

definition divToDecimalString :: "int \<Rightarrow> int \<Rightarrow> number \<Rightarrow> error + string" where
  "divToDecimalString numer denom scale =
     (if denom = 0 then Inl DivisionByZero
      else if \<not> isInteger scale \<or> lt0 scale then Inl InvalidScale
      else let sc = toIndex scale;
               neg = ((numer < 0) \<noteq> (denom < 0));
               a = absBig numer;
               b = absBig denom
           in case pow10 (int sc) of Inl e \<Rightarrow> Inl e
             | Inr p \<Rightarrow>
               (let scaled = a * p;
                    i = tdiv scaled b;
                    s = padStart (sc + 1) CHR ''0'' (toString i);
                    head = orElse (slice s 0 (- int sc)) ''0'';
                    tail = slice_from s (- int sc)
                in Inr ((if neg then ''-'' else '''') @ head @ (if sc > 0 then ''.'' @ tail else ''''))))"

subsection \<open>The rounding rules in the words of the specification\<close>

text \<open>
  \<open>sign = +1\<close> if numerator and denominator share sign, else \<open>-1\<close>; \<open>q\<close> and \<open>r\<close> are
  the truncating quotient and remainder.
\<close>

definition spec_sign :: "int \<Rightarrow> int \<Rightarrow> int" where
  "spec_sign n d = (if sgn n = sgn d then 1 else - 1)"

definition spec_divRound :: "int \<Rightarrow> int \<Rightarrow> Rounding \<Rightarrow> int" where
  "spec_divRound n d mode =
     (let q = tdiv n d; r = tmod n d; sign = spec_sign n d in
      case mode of
        Floor \<Rightarrow> (if r = 0 then q else if sign < 0 then q - 1 else q)
      | Ceil \<Rightarrow> (if sign > 0 \<and> r \<noteq> 0 then q + 1 else q)
      | Round \<Rightarrow> (if 2 * \<bar>r\<bar> \<ge> \<bar>d\<bar> then q + sign else q)
      | Bankers \<Rightarrow>
          (if 2 * \<bar>r\<bar> > \<bar>d\<bar> then q + sign
           else if 2 * \<bar>r\<bar> < \<bar>d\<bar> then q
           else if odd q then q + sign else q))"

text \<open>
  Clamping basis points to \<open>[0, 10000]\<close> after truncation toward zero, as an integer;
  an infinite value clamps to the nearer bound.
\<close>

fun spec_clamp :: "number \<Rightarrow> int" where
  "spec_clamp (Fin r) = max 0 (min 10000 (if r < 0 then \<lceil>r\<rceil> else \<lfloor>r\<rfloor>))"
| "spec_clamp PosInf = 10000"
| "spec_clamp NegInf = 0"
| "spec_clamp NaN = 0"

text \<open>
  \<open>toMinor\<close> in the words of the specification, from the parsed amount: the fraction
  padded or truncated to \<open>decimals + 1\<close> digits, the first \<open>decimals\<close> of them retained,
  the last one an indicator of which only zero or non-zero matters, the adjustment on
  the unsigned magnitude, the sign applied last.
\<close>

definition spec_toMinor :: "normalized \<Rightarrow> nat \<Rightarrow> Rounding \<Rightarrow> int" where
  "spec_toMinor n d mode =
     (let padded = take (d + 1) (frac_digits n @ replicate (d + 1) (CHR ''0''));
          retained = take d padded;
          indicator = padded ! d;
          base = int (dec_val (int_digits n)) * 10 ^ d + int (dec_val retained);
          rounded = (if indicator \<noteq> CHR ''0'' then roundAdjust base 1 mode else base)
      in if sign n < 0 then - rounded else rounded)"

text \<open>
  The unsigned rational value of a parsed amount: the integer digits, plus the
  fraction digits over the matching power of ten.
\<close>

definition amount_magnitude :: "normalized \<Rightarrow> rat" where
  "amount_magnitude n =
     rat_of_nat (dec_val (int_digits n))
     + rat_of_nat (dec_val (frac_digits n)) / 10 ^ length (frac_digits n)"

section \<open>Properties\<close>

subsection \<open>Truncating division\<close>

lemma tdiv_tmod_eq: "tdiv a b * b + tmod a b = a"
proof -
  have "tdiv a b * b + tmod a b = sgn a * ((\<bar>a\<bar> div \<bar>b\<bar>) * (sgn b * b) + \<bar>a\<bar> mod \<bar>b\<bar>)"
    by (simp add: tdiv_def tmod_def algebra_simps)
  also have "sgn b * b = \<bar>b\<bar>"
    by (simp add: abs_if sgn_if)
  also have "\<bar>a\<bar> div \<bar>b\<bar> * \<bar>b\<bar> + \<bar>a\<bar> mod \<bar>b\<bar> = \<bar>a\<bar>"
    by simp
  also have "sgn a * \<bar>a\<bar> = a"
    by (simp add: abs_if sgn_if)
  finally show ?thesis .
qed

lemma tmod_abs_less: "b \<noteq> 0 \<Longrightarrow> \<bar>tmod a b\<bar> < \<bar>b\<bar>"
  by (simp add: tmod_def abs_mult sgn_if)

lemma tmod_sign: "tmod a b = 0 \<or> sgn (tmod a b) = sgn a"
proof (cases "\<bar>a\<bar> mod \<bar>b\<bar> = 0")
  case True
  then show ?thesis by (simp add: tmod_def)
next
  case False
  have "0 \<le> \<bar>a\<bar> mod \<bar>b\<bar>"
  proof (cases "b = 0")
    case True
    then show ?thesis by simp
  next
    case False
    then have "0 < \<bar>b\<bar>" by simp
    then show ?thesis by (rule pos_mod_sign)
  qed
  with False have "0 < \<bar>a\<bar> mod \<bar>b\<bar>" by linarith
  then have "sgn (\<bar>a\<bar> mod \<bar>b\<bar>) = 1" by simp
  then show ?thesis by (simp add: tmod_def sgn_mult)
qed

lemma tmod_zero_iff: "b \<noteq> 0 \<Longrightarrow> tmod a b = 0 \<longleftrightarrow> b dvd a"
  by (auto simp: tmod_def sgn_if mod_eq_0_iff_dvd)

lemma tmod_2_even: "tmod q 2 = 0 \<longleftrightarrow> even q"
  by (simp add: tmod_zero_iff)

lemma absBig_abs: "absBig x = \<bar>x\<bar>"
  by (simp add: absBig_def)

lemma tdiv_nonneg: "0 \<le> a \<Longrightarrow> 0 < b \<Longrightarrow> tdiv a b = a div b"
  by (cases "a = 0") (simp_all add: tdiv_def)

lemma tmod_nonneg: "0 \<le> a \<Longrightarrow> 0 < b \<Longrightarrow> tmod a b = a mod b"
  by (cases "a = 0") (simp_all add: tmod_def)

lemma tmod_mult_self: "tmod (x * b) b = 0"
  by (simp add: tmod_def abs_mult)

lemma tdiv_mult_self: "b \<noteq> 0 \<Longrightarrow> tdiv (x * b) b = x"
proof -
  assume b: "b \<noteq> 0"
  have "tdiv (x * b) b * b + tmod (x * b) b = x * b" by (rule tdiv_tmod_eq)
  then have "tdiv (x * b) b * b = x * b" by (simp add: tmod_mult_self)
  with b show ?thesis by simp
qed

subsection \<open>divRound and mulDiv\<close>

lemma divRound_spec_eq:
  assumes "d \<noteq> 0"
  shows "divRound n d mode = Inr (spec_divRound n d mode)"
proof (cases "tmod n d = 0")
  case True
  with assms show ?thesis
    by (cases mode) (simp_all add: divRound_def spec_divRound_def Let_def)
next
  case False
  then have n0: "n \<noteq> 0" by (auto simp: tmod_def)
  have sg: "(if (n > 0) = (d > 0) then 1 else - 1 :: int) = spec_sign n d"
    using n0 assms by (auto simp: spec_sign_def sgn_if)
  from False assms show ?thesis
    unfolding divRound_def spec_divRound_def Let_def sg
    by (cases mode) (simp_all add: absBig_abs tmod_2_even abs_mult)
qed

lemma mulDiv_eq:
  "toBig b = Inr bb \<Longrightarrow> toBig c = Inr cc \<Longrightarrow>
   mulDiv a b c mode = divRound (a * bb) cc mode"
  by (simp add: mulDiv_def divRound_def)

text \<open>
  Claim C1. For a non-zero denominator \<open>d\<close>, \<open>divRound n d mode\<close> returns what the
  four rules of the specification give from the truncating quotient \<open>q\<close>, the
  truncating remainder \<open>r\<close> and \<open>sign\<close> (\<open>+1\<close> if \<open>n\<close> and \<open>d\<close> share sign, else
  \<open>-1\<close>): Floor, Ceil, Round (half away from zero) and Bankers (half to even).
  \<open>divRound\<close> fails exactly when \<open>d = 0\<close>, with DivisionByZero. \<open>mulDiv a b c mode\<close>,
  for integer operands \<open>b\<close> and \<open>c\<close>, is \<open>divRound (a * b) c mode\<close> and fails exactly
  when \<open>c = 0\<close>, with DivisionByZero.
\<close>

theorem divRound_mulDiv_rules:
  "(d \<noteq> 0 \<longrightarrow> divRound n d mode = Inr (spec_divRound n d mode))
   \<and> (isl (divRound n d mode) \<longleftrightarrow> d = 0)
   \<and> divRound n 0 mode = Inl DivisionByZero
   \<and> (toBig b = Inr bb \<and> toBig c = Inr cc \<longrightarrow>
        mulDiv a b c mode = divRound (a * bb) cc mode
        \<and> (isl (mulDiv a b c mode) \<longleftrightarrow> cc = 0)
        \<and> (cc = 0 \<longrightarrow> mulDiv a b c mode = Inl DivisionByZero))"
  using divRound_spec_eq [of d n mode] mulDiv_eq [of b bb c cc a mode]
    divRound_spec_eq [of cc "a * bb" mode]
  by (auto simp: divRound_def)

theorem divRound_mulDiv_rules_witness:
  "(2::int) \<noteq> 0 \<and> divRound 5 2 Bankers = Inr (spec_divRound 5 2 Bankers)
   \<and> spec_divRound 5 2 Bankers = 2
   \<and> toBig (Num (Fin 1)) = Inr 1 \<and> toBig (Big 2) = Inr 2
   \<and> mulDiv 5 (Num (Fin 1)) (Big 2) Bankers = Inr 2
   \<and> toBig (Big 0) = Inr 0 \<and> mulDiv 5 (Num (Fin 1)) (Big 0) Bankers = Inl DivisionByZero"
  using divRound_mulDiv_rules [of 2 5 Bankers "Num (Fin 1)" 1 "Big 2" 2 5]
    divRound_mulDiv_rules [of 2 5 Bankers "Num (Fin 1)" 1 "Big 0" 0 5]
  by (simp add: spec_divRound_def spec_sign_def tdiv_def tmod_def)

subsection \<open>roundAdjust\<close>

text \<open>
  Claim C4, as the code has it. \<open>roundAdjust base sign mode\<close> returns \<open>base\<close> unchanged
  for Floor; for Ceil it returns \<open>base + 1\<close> when \<open>sign\<close> is \<open>+1\<close> and \<open>base\<close> unchanged
  when \<open>sign\<close> is \<open>-1\<close>; for Round it returns \<open>base + sign\<close>; for Bankers it returns
  \<open>base\<close> when \<open>base\<close> is even and \<open>base + sign\<close> otherwise.
\<close>

theorem roundAdjust_modes:
  "roundAdjust base sg Floor = base
   \<and> roundAdjust base 1 Ceil = base + 1
   \<and> roundAdjust base (- 1) Ceil = base
   \<and> roundAdjust base sg Round = base + sg
   \<and> roundAdjust base sg Bankers = (if even base then base else base + sg)"
  by (simp add: roundAdjust_def tmod_2_even)

text \<open>With \<open>sign = -1\<close>, Ceil does not add \<open>sign\<close>: it leaves \<open>base\<close> as it is.\<close>

theorem roundAdjust_ceil_negative_sign_counterexample:
  "roundAdjust 5 (- 1) Ceil \<noteq> 5 + (- 1)"
  by (simp add: roundAdjust_def)

subsection \<open>scaleUnits\<close>

lemma POW10_nth: "k < 39 \<Longrightarrow> POW10 ! k = 10 ^ k"
  by (simp add: POW10_def)

lemma pow10_nat: "pow10 (int k) = Inr (10 ^ k)"
  by (simp add: pow10_def POW10_nth) (simp add: POW10_def)

lemma pow10_diff: "a \<le> b \<Longrightarrow> pow10 (int b - int a) = Inr (10 ^ (b - a))"
  using pow10_nat [of "b - a"] by (simp add: of_nat_diff)

lemma numOf_guards:
  "isInteger (numOf k)" "\<not> lt0 (numOf k)" "toIndex (numOf k) = k" "isFinite (numOf k)"
  by simp_all

lemma scaleUnits_same: "scaleUnits x (numOf a) (numOf a) opts = Inr x"
  by (simp add: scaleUnits_def)

lemma scaleUnits_widen:
  "a < b \<Longrightarrow> scaleUnits x (numOf a) (numOf b) opts = Inr (x * 10 ^ (b - a))"
  by (simp add: scaleUnits_def pow10_diff)

lemma scaleUnits_narrow:
  "b < a \<Longrightarrow> scaleUnits x (numOf a) (numOf b) opts =
     divRound x (10 ^ (a - b)) (case opts of None \<Rightarrow> Floor | Some m \<Rightarrow> m)"
  by (simp add: scaleUnits_def pow10_diff)

lemma divRound_exact: "p \<noteq> 0 \<Longrightarrow> divRound (x * p) p mode = Inr x"
  by (simp add: divRound_def tmod_mult_self tdiv_mult_self)

lemma scaleUnits_round_trip:
  assumes "a \<le> b"
  shows "scaleUnits (x * 10 ^ (b - a)) (numOf b) (numOf a) opts = Inr x"
proof (cases "a = b")
  case True
  then show ?thesis by (simp add: scaleUnits_same)
next
  case False
  with assms have "a < b" by simp
  then show ?thesis by (simp add: scaleUnits_narrow divRound_exact)
qed

text \<open>
  Claim C7. For every integer \<open>x\<close> and natural numbers \<open>a\<close>, \<open>b\<close>: scaling from \<open>a\<close>
  to \<open>a\<close> decimals is the identity; widening (\<open>a < b\<close>) multiplies by \<open>10^(b-a)\<close>
  exactly; narrowing (\<open>a > b\<close>) is \<open>divRound x (10^(a-b)) mode\<close>, with Floor when no
  mode is given; and scaling from \<open>a\<close> to \<open>b \<ge> a\<close> decimals and back returns \<open>x\<close>.
\<close>

theorem scaleUnits_cases:
  "scaleUnits x (numOf a) (numOf a) opts = Inr x
   \<and> (a < b \<longrightarrow> scaleUnits x (numOf a) (numOf b) opts = Inr (x * 10 ^ (b - a)))
   \<and> (b < a \<longrightarrow>
         scaleUnits x (numOf a) (numOf b) (Some mode) = divRound x (10 ^ (a - b)) mode
         \<and> scaleUnits x (numOf a) (numOf b) None = divRound x (10 ^ (a - b)) Floor)
   \<and> (a \<le> b \<longrightarrow> (\<exists>y. scaleUnits x (numOf a) (numOf b) opts = Inr y
                      \<and> scaleUnits y (numOf b) (numOf a) opts' = Inr x))"
proof -
  have "\<exists>y. scaleUnits x (numOf a) (numOf b) opts = Inr y
          \<and> scaleUnits y (numOf b) (numOf a) opts' = Inr x"
    if "a \<le> b"
  proof (cases "a = b")
    case True
    then show ?thesis by (simp add: scaleUnits_same)
  next
    case False
    with that have "a < b" by simp
    then show ?thesis
      using scaleUnits_round_trip [of a b x opts'] by (simp add: scaleUnits_widen)
  qed
  then show ?thesis
    by (simp add: scaleUnits_same scaleUnits_widen scaleUnits_narrow)
qed

theorem scaleUnits_cases_witness:
  "(2::nat) < 7 \<and> (2::nat) \<le> 7
   \<and> scaleUnits 12500 (numOf 2) (numOf 7) None = Inr 1250000000
   \<and> (\<exists>y. scaleUnits 12500 (numOf 2) (numOf 7) None = Inr y
          \<and> scaleUnits y (numOf 7) (numOf 2) None = Inr 12500)
   \<and> (1::nat) < 3
   \<and> scaleUnits 1 (numOf 3) (numOf 1) (Some Ceil) = divRound 1 (10 ^ (3 - 1)) Ceil"
  using scaleUnits_cases [of 12500 2 None 7 Floor None]
    scaleUnits_cases [of 1 3 None 1 Ceil None]
  by auto

subsection \<open>Slippage\<close>

lemma trunc_nonneg: "0 \<le> r \<Longrightarrow> trunc (Fin r) = Fin (rat_of_int \<lfloor>r\<rfloor>)"
  by simp

lemma applySlippage_fails: "isl (applySlippage a bps) \<longleftrightarrow> \<not> isFinite bps \<or> lt0 bps"
  by (cases bps) (simp_all add: applySlippage_def Let_def)

lemma applySlippage_value:
  "0 \<le> r \<Longrightarrow> applySlippage a (Fin r) = Inr (tdiv (a * (10000 - \<lfloor>r\<rfloor>)) 10000)"
  by (simp add: applySlippage_def BPS_BASE_def Let_def)

lemma clampBps_Fin: "clampBps (Fin r) = Fin (rat_of_int (spec_clamp (Fin r)))"
  by (simp add: clampBps_def Math_min_def Math_max_def max_def min_def)

lemma BigInt_clampBps: "bps \<noteq> NaN \<Longrightarrow> BigInt_num (clampBps bps) = Inr (spec_clamp bps)"
proof (cases bps)
  case (Fin r)
  then show ?thesis by (simp add: clampBps_Fin)
qed (simp_all add: clampBps_def Math_min_def Math_max_def)

lemma spec_clamp_range: "0 \<le> spec_clamp bps \<and> spec_clamp bps \<le> 10000"
  by (cases bps) simp_all

lemma slippageDown_value:
  "bps \<noteq> NaN \<Longrightarrow> slippageDown a bps = Inr (tdiv (a * (10000 - spec_clamp bps)) 10000)"
  by (simp add: slippageDown_def BigInt_clampBps BPS_BASE_def)

lemma slippageUp_value:
  "bps \<noteq> NaN \<Longrightarrow> slippageUp a bps =
     Inr (if tmod (a * (10000 + spec_clamp bps)) 10000 = 0
          then tdiv (a * (10000 + spec_clamp bps)) 10000
          else tdiv (a * (10000 + spec_clamp bps)) 10000 + 1)"
  by (simp add: slippageUp_def BigInt_clampBps BPS_BASE_def Let_def)

text \<open>On NaN the clamp returns NaN, and the conversion to BigInt throws.\<close>

lemma slippage_NaN:
  "slippageDown a NaN = Inl RangeError" "slippageUp a NaN = Inl RangeError"
  by (simp_all add: slippageDown_def slippageUp_def clampBps_def Math_min_def Math_max_def)

lemma ceil_div_nonneg:
  assumes "0 \<le> n" "0 < d"
  shows "(if tmod n d = 0 then tdiv n d else tdiv n d + 1) = \<lceil>rat_of_int n / rat_of_int d\<rceil>"
proof -
  have c: "\<lceil>rat_of_int n / rat_of_int d\<rceil> = - (- n div d)"
    by (rule ceiling_divide_eq_div)
  show ?thesis
  proof (cases "n mod d = 0")
    case True
    then have "d dvd n" by (simp add: dvd_eq_mod_eq_0)
    then have "- n div d = - (n div d)" by (simp add: div_minus_right dvd_neg_div)
    with True assms show ?thesis by (simp add: c tdiv_nonneg tmod_nonneg)
  next
    case False
    then have "- n div d = - (n div d) - 1"
      using assms by (simp add: zdiv_zminus1_eq_if)
    with False assms show ?thesis by (simp add: c tdiv_nonneg tmod_nonneg)
  qed
qed

text \<open>
  Where the product is not negative, the truncating division of BigInt is floor
  division, and the quotient raised by one on a non-zero remainder is the ceiling. (On
  \<^typ>\<open>int\<close>, \<open>div\<close> is floor division.)
\<close>

lemma applySlippage_floor_nonneg:
  "0 \<le> r \<Longrightarrow> 0 \<le> a * (10000 - \<lfloor>r\<rfloor>) \<Longrightarrow>
   applySlippage a (Fin r) = Inr (a * (10000 - \<lfloor>r\<rfloor>) div 10000)"
  by (simp add: applySlippage_value tdiv_nonneg)

lemma slippageDown_floor_nonneg:
  assumes "bps \<noteq> NaN" "0 \<le> a"
  shows "slippageDown a bps = Inr (a * (10000 - spec_clamp bps) div 10000)"
proof -
  have "0 \<le> a * (10000 - spec_clamp bps)"
    using assms(2) spec_clamp_range [of bps] by simp
  with assms(1) show ?thesis by (simp add: slippageDown_value tdiv_nonneg)
qed

lemma slippageUp_ceiling_nonneg:
  assumes "bps \<noteq> NaN" "0 \<le> a"
  shows "slippageUp a bps = Inr \<lceil>rat_of_int (a * (10000 + spec_clamp bps)) / 10000\<rceil>"
proof -
  have "0 \<le> a * (10000 + spec_clamp bps)"
    using assms(2) spec_clamp_range [of bps] by simp
  then show ?thesis
    using ceil_div_nonneg [of "a * (10000 + spec_clamp bps)" 10000] assms(1)
    by (simp add: slippageUp_value)
qed

lemma slippage_examples:
  "slippageUp 1000 (numOf 10000) = Inr 2000"
  "slippageDown 1000000 (numOf 0) = Inr 1000000"
  "slippageDown 1000000 (numOf 10000) = Inr 0"
  "applySlippage 1000000 (numOf 50) = Inr 995000"
  by (simp_all add: slippageUp_value slippageDown_value applySlippage_value tdiv_def tmod_def)

text \<open>
  Claim C5. \<open>applySlippage amountOut bps\<close> is to return
  \<open>amountOut * (10000 - trunc bps) / 10000\<close> with floor division for every integer
  \<open>amountOut\<close>, negative ones too, and \<open>slippageDown\<close> likewise. The code divides with
  the \<^verbatim>\<open>/\<close> of BigInt, which truncates toward zero: \<open>applySlippage (-1) 50\<close> returns
  \<open>0\<close>, where the floor of \<open>-9950 / 10000\<close> is \<open>-1\<close>, the value \<open>divRound\<close> gives under
  Floor; \<open>slippageDown (-1) 50\<close> returns \<open>0\<close> as well.
\<close>

theorem applySlippage_negative_amount_truncates:
  "applySlippage (- 1) (numOf 50) = Inr 0
   \<and> slippageDown (- 1) (numOf 50) = Inr 0
   \<and> \<lfloor>rat_of_int ((- 1) * (10000 - 50)) / 10000\<rfloor> = - 1
   \<and> divRound ((- 1) * (10000 - 50)) 10000 Floor = Inr (- 1)"
proof -
  have "\<lfloor>rat_of_int (- 9950) / rat_of_int 10000\<rfloor> = (- 9950) div 10000"
    by (rule floor_divide_of_int_eq)
  then have "\<lfloor>rat_of_int ((- 1) * (10000 - 50)) / 10000\<rfloor> = - 1"
    by simp
  moreover have "applySlippage (- 1) (numOf 50) = Inr 0"
    by (simp add: applySlippage_value tdiv_def)
  moreover have "slippageDown (- 1) (numOf 50) = Inr 0"
    by (simp add: slippageDown_value tdiv_def)
  moreover have "divRound ((- 1) * (10000 - 50)) 10000 Floor = Inr (- 1)"
    by (simp add: divRound_def tdiv_def tmod_def)
  ultimately show ?thesis by (simp only: simp_thms)
qed

text \<open>The input passes the guard of \<open>applySlippage\<close>: \<open>50\<close> is finite and not negative.\<close>

theorem applySlippage_negative_amount_truncates_witness:
  "isFinite (numOf 50) \<and> \<not> lt0 (numOf 50) \<and> applySlippage (- 1) (numOf 50) = Inr 0"
  using applySlippage_negative_amount_truncates by simp

text \<open>
  Claim C6. \<open>slippageUp amount bps\<close> is to clamp \<open>bps\<close> to \<open>[0, 10000]\<close>, compute
  \<open>amount * (10000 + bps)\<close> and apply ceiling division by \<open>10000\<close>. The code raises the
  truncated quotient by one on any non-zero remainder, which overshoots the ceiling of
  a negative product: \<open>slippageUp (-1) 1\<close> returns \<open>0\<close>, where the ceiling of
  \<open>-10001 / 10000\<close> is \<open>-1\<close>, the value \<open>divRound\<close> gives under Ceil.
\<close>

theorem slippageUp_negative_amount_overshoots:
  "slippageUp (- 1) (numOf 1) = Inr 0
   \<and> \<lceil>rat_of_int ((- 1) * (10000 + 1)) / 10000\<rceil> = - 1
   \<and> divRound ((- 1) * (10000 + 1)) 10000 Ceil = Inr (- 1)"
proof -
  have "\<lceil>rat_of_int (- 10001) / rat_of_int 10000\<rceil> = - (- (- 10001) div 10000)"
    by (rule ceiling_divide_eq_div)
  then have "\<lceil>rat_of_int ((- 1) * (10000 + 1)) / 10000\<rceil> = - 1"
    by simp
  moreover have "slippageUp (- 1) (numOf 1) = Inr 0"
    by (simp add: slippageUp_value tdiv_def tmod_def)
  moreover have "divRound ((- 1) * (10000 + 1)) 10000 Ceil = Inr (- 1)"
    by (simp add: divRound_def tdiv_def tmod_def)
  ultimately show ?thesis by (simp only: simp_thms)
qed

subsection \<open>splitAmount\<close>

declare splitLoop.simps [simp del]

lemma splitLoop_guarded:
  "0 < lot \<Longrightarrow> splitLoop lot left chunks =
     (if left \<ge> lot then splitLoop lot (left - lot) (chunks @ [lot]) else (left, chunks))"
  by (simp add: splitLoop.simps [of lot left])

lemma splitLoop_stop: "left < lot \<Longrightarrow> splitLoop lot left chunks = (left, chunks)"
  by (simp add: splitLoop.simps)

lemma splitLoop_closed:
  "0 < lot \<Longrightarrow> 0 \<le> left \<Longrightarrow>
   splitLoop lot left chunks = (left mod lot, chunks @ replicate (nat (left div lot)) lot)"
proof (induction lot left chunks rule: splitLoop.induct)
  case (1 lot left chunks)
  show ?case
  proof (cases "lot \<le> left")
    case True
    with "1.prems" have ih: "splitLoop lot (left - lot) (chunks @ [lot]) =
        ((left - lot) mod lot, (chunks @ [lot]) @ replicate (nat ((left - lot) div lot)) lot)"
      using "1.IH" by simp
    have "lot \<noteq> 0" using "1.prems" by simp
    then have "(left - lot + lot) div lot = (left - lot) div lot + 1"
      by (rule div_add_self2)
    then have d: "(left - lot) div lot = left div lot - 1" by simp
    have "0 < left div lot" using True "1.prems" by (simp add: pos_imp_zdiv_pos_iff)
    then have n: "nat (left div lot) = Suc (nat (left div lot - 1))" by simp
    have "splitLoop lot left chunks = splitLoop lot (left - lot) (chunks @ [lot])"
      using True "1.prems" by (simp add: splitLoop.simps [of lot left])
    also note ih
    finally show ?thesis
      by (simp add: d n replicate_append_same del: replicate_Suc)
         (simp add: replicate_append_same)
  next
    case False
    then have "left < lot" by simp
    with "1.prems" show ?thesis by (simp add: splitLoop_stop)
  qed
qed


lemma splitAmount_closed:
  assumes "0 < lot"
  shows "splitAmount tot lot =
     Inr (let k = nat (tot div lot); left = tot - int k * lot
          in replicate k lot @ (if 0 < left then [left] else []))"
proof (cases "0 \<le> tot")
  case True
  then have k: "int (nat (tot div lot)) = tot div lot"
    using assms by (simp add: pos_imp_zdiv_nonneg_iff)
  have "tot - (tot div lot) * lot = tot mod lot"
    by (simp add: minus_div_mult_eq_mod)
  moreover have "0 \<le> tot div lot"
    using True assms by (simp add: pos_imp_zdiv_nonneg_iff)
  ultimately show ?thesis
    using True assms by (simp add: splitAmount_def splitLoop_closed Let_def)
next
  case False
  then have neg: "tot < 0" by simp
  with assms have "tot div lot < 0" by (simp add: pos_imp_zdiv_neg_iff)
  then have "nat (tot div lot) = 0" by simp
  with neg assms show ?thesis
    by (simp add: splitAmount_def Let_def splitLoop_stop)
qed

lemma sum_list_replicate_int: "sum_list (replicate k (x::int)) = int k * x"
  by (induction k) (simp_all add: algebra_simps)

text \<open>
  Claim C8. \<open>splitAmount total lotSize\<close> fails iff \<open>lotSize \<le> 0\<close>. Otherwise it
  returns one chunk of exactly \<open>lotSize\<close> for each time \<open>lotSize\<close> fits into the running
  remainder, followed by the leftover when the leftover is strictly positive; for
  \<open>total \<ge> 0\<close> the chunks sum to \<open>total\<close>; \<open>splitAmount 10 3 = [3, 3, 3, 1]\<close> and
  \<open>splitAmount 2 5 = [2]\<close>.
\<close>

theorem splitAmount_chunks:
  "(isl (splitAmount tot lot) \<longleftrightarrow> lot \<le> 0)
   \<and> (0 < lot \<longrightarrow> splitAmount tot lot =
         Inr (let k = nat (tot div lot); left = tot - int k * lot
              in replicate k lot @ (if 0 < left then [left] else [])))
   \<and> (0 < lot \<and> 0 \<le> tot \<longrightarrow>
         (\<exists>chunks. splitAmount tot lot = Inr chunks \<and> sum_list chunks = tot))
   \<and> splitAmount 10 3 = Inr [3, 3, 3, 1]
   \<and> splitAmount 2 5 = Inr [2]"
proof -
  have a: "isl (splitAmount tot lot) \<longleftrightarrow> lot \<le> 0"
    by (cases "splitLoop lot tot []") (simp add: splitAmount_def)
  have c: "\<exists>chunks. splitAmount tot lot = Inr chunks \<and> sum_list chunks = tot"
    if "0 < lot" "0 \<le> tot"
  proof -
    define k where "k = nat (tot div lot)"
    define m where "m = tot - int k * lot"
    have "0 \<le> tot div lot"
      using that by (simp add: pos_imp_zdiv_nonneg_iff)
    then have "int k = tot div lot" by (simp add: k_def)
    then have "m = tot mod lot"
      by (simp add: m_def minus_div_mult_eq_mod)
    then have m0: "0 \<le> m" using that by simp
    have s: "splitAmount tot lot = Inr (replicate k lot @ (if 0 < m then [m] else []))"
      using that by (simp add: splitAmount_closed Let_def k_def m_def)
    have "sum_list (replicate k lot @ (if 0 < m then [m] else [])) = int k * lot + m"
      using m0 by (simp add: sum_list_replicate_int)
    also have "\<dots> = tot" by (simp add: m_def)
    finally show ?thesis using s by blast
  qed
  have d: "splitAmount 10 3 = Inr [3, 3, 3, 1]"
    by (simp add: splitAmount_def splitLoop.simps)
  have e: "splitAmount 2 5 = Inr [2]"
    by (simp add: splitAmount_def splitLoop.simps)
  from a c d e show ?thesis
    by (simp add: splitAmount_closed)
qed

theorem splitAmount_chunks_witness:
  "(0::int) < 3 \<and> (0::int) \<le> 10 \<and> splitAmount 10 3 = Inr [3, 3, 3, 1]
   \<and> sum_list [3, 3, 3, 1] = (10::int) \<and> \<not> isl (splitAmount 10 3)"
  using splitAmount_chunks [of 10 3] by (simp add: Let_def numeral_3_eq_3)


subsection \<open>Digits\<close>

declare nat_digits.simps [simp del]

lemma of_char_digit_char: "k < 10 \<Longrightarrow> (of_char (digit_char k) :: nat) = 48 + k"
  by (simp add: digit_char_def)

lemma isDigit_digit_char: "k < 10 \<Longrightarrow> isDigit (digit_char k)"
  by (simp add: isDigit_def of_char_digit_char)

lemma digit_val_digit_char: "k < 10 \<Longrightarrow> digit_val (digit_char k) = k"
  by (simp add: digit_val_def of_char_digit_char)

lemma digit_char_zero: "digit_char 0 = CHR ''0''"
proof -
  have "(of_char (digit_char 0) :: nat) = of_char (CHR ''0'')"
    by (simp add: of_char_digit_char)
  then show ?thesis by (simp only: of_char_eq_iff)
qed

lemma digit_char_eq_zero: "k < 10 \<Longrightarrow> digit_char k = CHR ''0'' \<longleftrightarrow> k = 0"
proof
  assume "k < 10" and "digit_char k = CHR ''0''"
  then have "(of_char (digit_char k) :: nat) = of_char (CHR ''0'')" by simp
  with \<open>k < 10\<close> show "k = 0" by (simp add: of_char_digit_char)
qed (simp add: digit_char_zero)

lemma isDigit_not_special:
  assumes "isDigit c"
  shows "\<not> isSpace c" "c \<noteq> CHR ''.''" "c \<noteq> CHR '',''" "c \<noteq> CHR ''_''"
    "c \<noteq> CHR ''+''" "c \<noteq> CHR ''-''"
  using assms by (auto simp: isDigit_def isSpace_def)

lemma isDigit_zero: "isDigit (CHR ''0'')"
  by (simp add: isDigit_def)

lemma digit_val_zero_iff: "isDigit c \<Longrightarrow> digit_val c = 0 \<longleftrightarrow> c = CHR ''0''"
proof
  assume d: "isDigit c" and z: "digit_val c = 0"
  then have "(of_char c :: nat) = 48" by (simp add: isDigit_def digit_val_def)
  then have "(of_char c :: nat) = of_char (CHR ''0'')" by simp
  then show "c = CHR ''0''" by (simp only: of_char_eq_iff)
qed (simp add: digit_val_def)


subsection \<open>Decimal numerals\<close>

lemma nat_digits_small: "n < 10 \<Longrightarrow> nat_digits n = [digit_char n]"
  by (simp add: nat_digits.simps)

lemma nat_digits_large:
  "\<not> n < 10 \<Longrightarrow> nat_digits n = nat_digits (n div 10) @ [digit_char (n mod 10)]"
  by (simp add: nat_digits.simps [of n])

lemma nat_digits_nonempty: "nat_digits n \<noteq> []"
  by (cases "n < 10") (simp_all add: nat_digits_small nat_digits_large)

lemma nat_digits_all_digits: "list_all isDigit (nat_digits n)"
proof (induction n rule: nat_digits.induct)
  case (1 n)
  then show ?case
    by (cases "n < 10") (simp_all add: nat_digits_small nat_digits_large isDigit_digit_char)
qed

lemma isDigits_nat_digits: "isDigits (nat_digits n)"
  by (simp add: isDigits_def nat_digits_nonempty nat_digits_all_digits)

lemma dec_val_snoc: "dec_val (s @ [c]) = 10 * dec_val s + digit_val c"
  by (simp add: dec_val_def)

lemma dec_val_nat_digits: "dec_val (nat_digits n) = n"
proof (induction n rule: nat_digits.induct)
  case (1 n)
  show ?case
  proof (cases "n < 10")
    case True
    then show ?thesis by (simp add: nat_digits_small dec_val_def digit_val_digit_char)
  next
    case False
    with 1 show ?thesis
      by (simp add: nat_digits_large dec_val_snoc digit_val_digit_char)
  qed
qed

lemma dec_val_append: "dec_val (a @ b) = dec_val a * 10 ^ length b + dec_val b"
proof (induction b rule: rev_induct)
  case Nil
  then show ?case by (simp add: dec_val_def)
next
  case (snoc c b)
  have "dec_val (a @ b @ [c]) = 10 * dec_val (a @ b) + digit_val c"
    using dec_val_snoc [of "a @ b" c] by simp
  with snoc show ?case by (simp add: dec_val_snoc algebra_simps)
qed

lemma dec_val_zeros: "dec_val (replicate k (CHR ''0'')) = 0"
proof (induction k)
  case 0
  then show ?case by (simp add: dec_val_def)
next
  case (Suc k)
  have "replicate (Suc k) (CHR ''0'') = replicate k (CHR ''0'') @ [CHR ''0'']"
    by (simp add: replicate_append_same)
  with Suc show ?case by (simp only: dec_val_snoc) (simp add: digit_val_def)
qed

lemma dec_val_padded: "dec_val (replicate k (CHR ''0'') @ s) = dec_val s"
  by (simp add: dec_val_append dec_val_zeros)

lemma hd_nat_digits: "0 < n \<Longrightarrow> hd (nat_digits n) \<noteq> CHR ''0''"
proof (induction n rule: nat_digits.induct)
  case (1 n)
  show ?case
  proof (cases "n < 10")
    case True
    with "1.prems" show ?thesis by (simp add: nat_digits_small digit_char_eq_zero)
  next
    case False
    then have "0 < n div 10" by simp
    with False 1 show ?thesis
      by (simp add: nat_digits_large nat_digits_nonempty)
  qed
qed

lemma nat_digits_zero: "nat_digits 0 = ''0''"
  by (simp add: nat_digits_small digit_char_zero)

lemma length_nat_digits: "0 < d \<Longrightarrow> n < 10 ^ d \<Longrightarrow> length (nat_digits n) \<le> d"
proof (induction n arbitrary: d rule: nat_digits.induct)
  case (1 n)
  show ?case
  proof (cases "n < 10")
    case True
    with "1.prems" show ?thesis by (simp add: nat_digits_small)
  next
    case False
    with "1.prems" obtain d' where d: "d = Suc d'" by (cases d) auto
    with False "1.prems" have "0 < d'" by (cases d') auto
    moreover from "1.prems" d have "n div 10 < 10 ^ d'" by (simp add: less_mult_imp_div_less mult.commute)
    ultimately have "length (nat_digits (n div 10)) \<le> d'"
      using "1.IH" False by simp
    with False d show ?thesis by (simp add: nat_digits_large)
  qed
qed

lemma stripLeadingZeros_nat_digits: "stripLeadingZeros (nat_digits n) = nat_digits n"
proof (cases "n = 0")
  case True
  then show ?thesis by (simp add: nat_digits_zero stripLeadingZeros_def)
next
  case False
  then have "hd (nat_digits n) \<noteq> CHR ''0''" by (simp add: hd_nat_digits)
  then have "takeWhile (\<lambda>c. c = CHR ''0'') (nat_digits n) = []"
    using nat_digits_nonempty [of n] by (cases "nat_digits n") auto
  then show ?thesis by (simp add: stripLeadingZeros_def)
qed

subsection \<open>String operations on digit strings\<close>

lemma trim_id: "list_all (\<lambda>c. \<not> isSpace c) s \<Longrightarrow> trim s = s"
proof -
  assume a: "list_all (\<lambda>c. \<not> isSpace c) s"
  have "dropWhile isSpace s = s"
    using a by (cases s) auto
  moreover have "dropWhile isSpace (rev s) = rev s"
    using a by (cases "rev s") (auto simp: list_all_iff dest: arg_cong [where f = set])
  ultimately show ?thesis by (simp add: trim_def)
qed

lemma filter_id: "list_all P s \<Longrightarrow> filter P s = s"
  by (induction s) auto

lemma removeSpacesUnderscores_id:
  "list_all (\<lambda>c. \<not> isSpace c \<and> c \<noteq> CHR ''_'') s \<Longrightarrow> removeSpacesUnderscores s = s"
  by (induction s) (auto simp: removeSpacesUnderscores_def)

lemma removeSeparators_digits: "list_all isDigit s \<Longrightarrow> removeSeparators s = s"
  by (induction s) (auto simp: removeSeparators_def isDigit_not_special)

lemma lastIndexOf_from_absent: "c \<notin> set s \<Longrightarrow> lastIndexOf_from i s c found = found"
  by (induction s arbitrary: i) auto

lemma lastIndexOf_from_lower: "c \<in> set s \<Longrightarrow> i \<le> lastIndexOf_from i s c found"
proof (induction s arbitrary: i found)
  case Nil
  then show ?case by simp
next
  case (Cons x s)
  show ?case
  proof (cases "c \<in> set s")
    case True
    then have "i + 1 \<le> lastIndexOf_from (i + 1) s c (if x = c then i else found)"
      by (rule Cons.IH)
    then show ?thesis by simp
  next
    case False
    with Cons.prems have "x = c" by simp
    with False show ?thesis by (simp add: lastIndexOf_from_absent)
  qed
qed

lemma lastIndexOf_absent: "c \<notin> set s \<Longrightarrow> lastIndexOf s c = - 1"
  by (simp add: lastIndexOf_def lastIndexOf_from_absent)

lemma lastIndexOf_present: "c \<in> set s \<Longrightarrow> 0 \<le> lastIndexOf s c"
  by (simp add: lastIndexOf_def lastIndexOf_from_lower)

lemma lastIndexOf_nonneg_iff: "0 \<le> lastIndexOf s c \<longleftrightarrow> c \<in> set s"
  by (cases "c \<in> set s") (simp_all add: lastIndexOf_absent lastIndexOf_present)

lemma split_nonempty: "split s c \<noteq> []"
  by (induction s) (auto split: list.splits)

lemma split_absent: "c \<notin> set s \<Longrightarrow> split s c = [s]"
  by (induction s) auto

lemma split_once: "c \<notin> set a \<Longrightarrow> split (a @ c # b) c = a # split b c"
  by (induction a) auto


subsection \<open>What the parser returns\<close>

lemma isDigits_stripLeadingZeros: "isDigits s \<Longrightarrow> isDigits (stripLeadingZeros s)"
proof -
  assume d: "isDigits s"
  let ?rest = "dropWhile (\<lambda>c. c = CHR ''0'') s"
  have "set ?rest \<subseteq> set s" by (rule set_dropWhileD [THEN subsetI])
  with d have r: "list_all isDigit ?rest" by (auto simp: isDigits_def list_all_iff)
  with d show ?thesis
    by (simp add: stripLeadingZeros_def isDigits_def Let_def isDigit_zero)
qed

lemma isDigits_orElse: "isDigits s \<Longrightarrow> orElse s t = s"
  by (simp add: orElse_def isDigits_def)

lemma isDigits_normalized: "isDigits s \<Longrightarrow> isDigits (orElse (stripLeadingZeros s) t)"
  by (simp add: isDigits_stripLeadingZeros isDigits_orElse)

lemma normalizeParts_shape:
  assumes "normalizeParts sg s = Inr n"
  shows "\<exists>ip fp. isDigits ip \<and> (fp = [] \<or> isDigits fp)
           \<and> int_digits n = orElse (stripLeadingZeros ip) ''0''
           \<and> frac_digits n = fp \<and> sign n = sg"
proof (cases "0 \<le> lastIndexOf s (CHR ''.'') \<or> 0 \<le> lastIndexOf s (CHR '','')")
  case True
  define sep where "sep = (if lastIndexOf s (CHR '','') < lastIndexOf s (CHR ''.'')
                           then CHR ''.'' else CHR '','')"
  define ip where "ip = removeSeparators (orElse (hd (split s sep)) ''0'')"
  define fp where "fp = removeSeparators (concat (tl (split s sep)))"
  have eq: "normalizeParts sg s =
      (if \<not> isDigits ip \<or> (fp \<noteq> [] \<and> \<not> isDigits fp) then Inl InvalidAmount
       else Inr \<lparr>sign = sg, int_digits = orElse (stripLeadingZeros ip) ''0'', frac_digits = fp\<rparr>)"
    using True by (simp add: normalizeParts_def Let_def sep_def ip_def fp_def)
  show ?thesis
  proof (cases "\<not> isDigits ip \<or> (fp \<noteq> [] \<and> \<not> isDigits fp)")
    case True
    with eq assms show ?thesis by simp
  next
    case False
    with eq assms have "n = \<lparr>sign = sg, int_digits = orElse (stripLeadingZeros ip) ''0'', frac_digits = fp\<rparr>"
      by auto
    with False show ?thesis by auto
  qed
next
  case False
  define ip where "ip = removeSeparators s"
  have eq: "normalizeParts sg s =
      (if \<not> isDigits ip then Inl InvalidAmount
       else Inr \<lparr>sign = sg, int_digits = orElse (stripLeadingZeros ip) ''0'', frac_digits = []\<rparr>)"
    using False by (simp add: normalizeParts_def Let_def ip_def)
  show ?thesis
  proof (cases "isDigits ip")
    case True
    with eq assms have "n = \<lparr>sign = sg, int_digits = orElse (stripLeadingZeros ip) ''0'', frac_digits = []\<rparr>"
      by simp
    with True show ?thesis by auto
  next
    case False
    with eq assms show ?thesis by simp
  qed
qed

lemma normalizeAmountInput_shape:
  assumes "normalizeAmountInput x = Inr n"
  shows "\<exists>ip fp. isDigits ip \<and> (fp = [] \<or> isDigits fp)
           \<and> int_digits n = orElse (stripLeadingZeros ip) ''0''
           \<and> frac_digits n = fp \<and> (sign n = 1 \<or> sign n = - 1)"
proof -
  from assms obtain sg s where "normalizeParts sg s = Inr n" and "sg = 1 \<or> sg = - 1"
    unfolding normalizeAmountInput_def Let_def by (auto split: if_splits)
  with normalizeParts_shape [of sg s n] show ?thesis by auto
qed

lemma normalizeAmountInput_digits:
  assumes "normalizeAmountInput x = Inr n"
  shows "isDigits (int_digits n)" and "list_all isDigit (frac_digits n)"
    and "sign n = 1 \<or> sign n = - 1"
proof -
  from normalizeAmountInput_shape [OF assms] obtain ip fp where
    h: "isDigits ip" "fp = [] \<or> isDigits fp"
      "int_digits n = orElse (stripLeadingZeros ip) ''0''" "frac_digits n = fp"
      "sign n = 1 \<or> sign n = - 1"
    by blast
  from h(1,3) show "isDigits (int_digits n)" by (simp add: isDigits_normalized)
  from h(2,4) show "list_all isDigit (frac_digits n)" by (auto simp: isDigits_def)
  from h(5) show "sign n = 1 \<or> sign n = - 1" .
qed

lemma digits_no_spaces: "list_all isDigit s \<Longrightarrow> list_all (\<lambda>c. \<not> isSpace c \<and> c \<noteq> CHR ''_'') s"
  by (induction s) (simp_all add: isDigit_not_special)

lemma digits_notin: "list_all isDigit s \<Longrightarrow> \<not> isDigit c \<Longrightarrow> c \<notin> set s"
  by (auto simp: list_all_iff)

lemma not_isDigit_separators: "\<not> isDigit (CHR ''.'')" "\<not> isDigit (CHR '','')"
  by (simp_all add: isDigit_def)

lemma normalizeParts_point:
  assumes I: "isDigits I" and F: "list_all isDigit F"
  shows "normalizeParts sg (I @ CHR ''.'' # F) =
     Inr \<lparr>sign = sg, int_digits = stripLeadingZeros I, frac_digits = F\<rparr>"
proof -
  let ?x = "I @ CHR ''.'' # F"
  from I have Ine: "I \<noteq> []" and Id: "list_all isDigit I" by (simp_all add: isDigits_def)
  have dotI: "CHR ''.'' \<notin> set I" and dotF: "CHR ''.'' \<notin> set F"
    using Id F by (simp_all add: digits_notin not_isDigit_separators)
  have "CHR '','' \<notin> set ?x"
    using Id F by (simp add: digits_notin not_isDigit_separators)
  then have lc: "lastIndexOf ?x (CHR '','') = - 1" by (rule lastIndexOf_absent)
  have ld: "0 \<le> lastIndexOf ?x (CHR ''.'')" by (rule lastIndexOf_present) simp
  have sp: "split ?x (CHR ''.'') = [I, F]"
    using dotI dotF by (simp add: split_once split_absent)
  have rI: "removeSeparators (orElse I ''0'') = I"
    using I Id by (simp add: isDigits_orElse removeSeparators_digits)
  have rF: "removeSeparators F = F" using F by (rule removeSeparators_digits)
  have oz: "orElse (stripLeadingZeros I) ''0'' = stripLeadingZeros I"
    using I by (simp add: isDigits_orElse isDigits_stripLeadingZeros)
  have Fd: "F = [] \<or> isDigits F" using F by (simp add: isDigits_def)
  show ?thesis
    unfolding normalizeParts_def Let_def lc
    using ld I Fd by (auto simp: sp rI rF oz)
qed

lemma normalizeParts_plain:
  assumes I: "isDigits I"
  shows "normalizeParts sg I = Inr \<lparr>sign = sg, int_digits = stripLeadingZeros I, frac_digits = []\<rparr>"
proof -
  from I have Id: "list_all isDigit I" by (simp add: isDigits_def)
  have "CHR '','' \<notin> set I" "CHR ''.'' \<notin> set I"
    using Id by (simp_all add: digits_notin not_isDigit_separators)
  then have l: "lastIndexOf I (CHR '','') = - 1" "lastIndexOf I (CHR ''.'') = - 1"
    by (simp_all add: lastIndexOf_absent)
  have rI: "removeSeparators I = I"
    using Id by (simp add: removeSeparators_digits)
  have oz: "orElse (stripLeadingZeros I) ''0'' = stripLeadingZeros I"
    using I by (simp add: isDigits_orElse isDigits_stripLeadingZeros)
  show ?thesis
    unfolding normalizeParts_def Let_def l
    using I by (simp add: rI oz)
qed

text \<open>A string that begins with a digit and has no space or underscore goes to
  \<open>normalizeParts\<close> unchanged, with sign \<open>+1\<close>.\<close>

lemma normalizeAmountInput_unsigned:
  assumes "x \<noteq> []" "isDigit (hd x)" "list_all (\<lambda>c. \<not> isSpace c \<and> c \<noteq> CHR ''_'') x"
  shows "normalizeAmountInput x = normalizeParts 1 x"
proof -
  from assms(3) have "list_all (\<lambda>c. \<not> isSpace c) x" by (auto simp: list_all_iff)
  then have t: "trim x = x" by (rule trim_id)
  have r: "removeSpacesUnderscores x = x"
    using assms(3) by (rule removeSpacesUnderscores_id)
  from assms(2) have "hd x \<noteq> CHR ''+''" "hd x \<noteq> CHR ''-''"
    by (simp_all add: isDigit_not_special)
  with assms(1) show ?thesis
    by (simp add: normalizeAmountInput_def Let_def t r)
qed

lemma normalizeAmountInput_point:
  assumes I: "isDigits I" and F: "list_all isDigit F"
  shows "normalizeAmountInput (I @ CHR ''.'' # F) =
     Inr \<lparr>sign = 1, int_digits = stripLeadingZeros I, frac_digits = F\<rparr>"
proof -
  from I have Ine: "I \<noteq> []" and Id: "list_all isDigit I" by (simp_all add: isDigits_def)
  have "isDigit (hd I)" using Ine Id by (cases I) auto
  then have "isDigit (hd (I @ CHR ''.'' # F))" using Ine by simp
  moreover have "list_all (\<lambda>c. \<not> isSpace c \<and> c \<noteq> CHR ''_'') (I @ CHR ''.'' # F)"
    using digits_no_spaces [OF Id] digits_no_spaces [OF F] by (simp add: isSpace_def)
  ultimately have "normalizeAmountInput (I @ CHR ''.'' # F) = normalizeParts 1 (I @ CHR ''.'' # F)"
    by (intro normalizeAmountInput_unsigned) simp_all
  with I F show ?thesis by (simp add: normalizeParts_point)
qed

lemma normalizeAmountInput_plain:
  assumes I: "isDigits I"
  shows "normalizeAmountInput I = Inr \<lparr>sign = 1, int_digits = stripLeadingZeros I, frac_digits = []\<rparr>"
proof -
  from I have Ine: "I \<noteq> []" and Id: "list_all isDigit I" by (simp_all add: isDigits_def)
  have "isDigit (hd I)" using Ine Id by (cases I) auto
  with Ine digits_no_spaces [OF Id] have "normalizeAmountInput I = normalizeParts 1 I"
    by (intro normalizeAmountInput_unsigned)
  with I show ?thesis by (simp add: normalizeParts_plain)
qed

subsection \<open>Slices\<close>

lemma slice_nat: "slice s (int a) (int b) = take (b - a) (drop a s)"
  by (cases "a \<le> length s"; cases "b \<le> length s") (auto simp: slice_def relIndex_def Let_def min_def)

lemma slice_0: "slice s 0 (int b) = take b s"
  using slice_nat [of s 0 b] by simp

lemma slice_0_Suc: "slice s 0 (int b + 1) = take (Suc b) s"
  using slice_nat [of s 0 "Suc b"] by (simp add: add.commute)

lemma slice_one: "slice s (int a) (int a + 1) = take 1 (drop a s)"
  using slice_nat [of s a "Suc a"] by (simp add: add.commute)

lemma take_padded_length: "length (take k (s @ replicate k c)) = k"
  by simp

lemma take_padded_digits:
  "list_all isDigit s \<Longrightarrow> list_all isDigit (take k (s @ replicate j (CHR ''0'')))"
  by (auto simp: list_all_iff isDigit_zero dest!: in_set_takeD)

lemma take_take_padded: "take d (take (Suc d) (s @ replicate (Suc d) c)) = take d (s @ replicate d c)"
  by (simp add: min_def del: replicate.simps)

subsection \<open>toMinor\<close>

lemma BigInt_str_digits: "isDigits s \<Longrightarrow> BigInt_str s = Inr (int (dec_val s))"
  by (simp add: BigInt_str_def)

lemma BigInt_str_orElse:
  "list_all isDigit s \<Longrightarrow> BigInt_str (orElse s ''0'') = Inr (int (dec_val s))"
  by (cases "s = []") (simp_all add: orElse_def BigInt_str_def isDigits_def isDigit_zero dec_val_def digit_val_def)

lemma gt0_Number_str_digit:
  "isDigit c \<Longrightarrow> gt0 (Number_str (orElse [c] ''0'')) \<longleftrightarrow> c \<noteq> CHR ''0''"
proof -
  assume d: "isDigit c"
  then have "0 < digit_val c \<longleftrightarrow> c \<noteq> CHR ''0''"
    using digit_val_zero_iff [of c] by auto
  with d show ?thesis
    by (simp add: orElse_def Number_str_def isDigits_def dec_val_def)
qed

lemma list_all_take: "list_all P xs \<Longrightarrow> list_all P (take k xs)"
  by (auto simp: list_all_iff dest: in_set_takeD)

lemma toMinor_parsed:
  assumes "normalizeAmountInput human = Inr n"
  shows "toMinor human (numOf d) opts =
     Inr (spec_toMinor n d (case opts of None \<Rightarrow> Round | Some m \<Rightarrow> m))"
proof -
  define mode where "mode = (case opts of None \<Rightarrow> Round | Some m \<Rightarrow> m)"
  define padded where "padded = take (Suc d) (frac_digits n @ replicate (Suc d) (CHR ''0''))"
  define base where "base = int (dec_val (int_digits n)) * 10 ^ d + int (dec_val (take d padded))"
  have I: "isDigits (int_digits n)" and F: "list_all isDigit (frac_digits n)"
    using normalizeAmountInput_digits [OF assms] by simp_all
  have len: "length padded = Suc d" by (simp add: padded_def)
  have pd: "list_all isDigit padded"
    unfolding padded_def using F by (rule take_padded_digits)
  have p1: "slice (frac_digits n @ replicate (Suc d) (CHR ''0'')) 0 (int d + 1) = padded"
    by (simp only: slice_0_Suc padded_def)
  have p2: "slice padded 0 (int d) = take d padded" by (rule slice_0)
  have "drop d padded = [padded ! d]"
    using len by (metis Cons_nth_drop_Suc drop_all lessI order_refl)
  then have p3: "slice padded (int d) (int d + 1) = [padded ! d]"
    by (simp only: slice_one) simp
  have "isDigit (padded ! d)"
    using pd len by (simp add: list_all_length)
  then have g: "gt0 (Number_str (orElse [padded ! d] ''0'')) \<longleftrightarrow> padded ! d \<noteq> CHR ''0''"
    by (rule gt0_Number_str_digit)
  have "list_all isDigit (take d padded)"
    using pd by (rule list_all_take)
  then have c: "BigInt_str (orElse (take d padded) ''0'') = Inr (int (dec_val (take d padded)))"
    by (rule BigInt_str_orElse)
  have b: "BigInt_str (int_digits n) = Inr (int (dec_val (int_digits n)))"
    using I by (rule BigInt_str_digits)
  have lhs: "toMinor human (numOf d) opts =
      Inr (if sign n < 0
           then - (if padded ! d \<noteq> CHR ''0'' then roundAdjust base 1 mode else base)
           else (if padded ! d \<noteq> CHR ''0'' then roundAdjust base 1 mode else base))"
    using assms
    by (simp add: toMinor_def Let_def p1 p2 p3 b c g pow10_nat mode_def base_def
        del: replicate.simps)
  have rhs: "spec_toMinor n d mode =
      (if sign n < 0
       then - (if padded ! d \<noteq> CHR ''0'' then roundAdjust base 1 mode else base)
       else (if padded ! d \<noteq> CHR ''0'' then roundAdjust base 1 mode else base))"
    by (simp add: spec_toMinor_def Let_def padded_def base_def)
  show ?thesis unfolding lhs rhs mode_def [symmetric] ..
qed

subsection \<open>fromMinor and the round trip\<close>

lemma toString_nat: "toString (int k) = nat_digits k"
  by (simp add: toString_def)

lemma tdiv_nat: "0 < b \<Longrightarrow> tdiv (int a) (int b) = int (a div b)"
  by (simp add: tdiv_nonneg zdiv_int)

lemma tmod_nat: "0 < b \<Longrightarrow> tmod (int a) (int b) = int (a mod b)"
  by (simp add: tmod_nonneg zmod_int)

lemma pow10_nat': "pow10 (int d) = Inr (int (10 ^ d))"
  by (simp add: pow10_nat)

lemma fromMinor_nat:
  "fromMinor (int M) (numOf d) =
     Inr (if d = 0 then nat_digits M
          else nat_digits (M div 10 ^ d) @ CHR ''.'' # padStart d (CHR ''0'') (nat_digits (M mod 10 ^ d)))"
proof -
  define P :: nat where "P = 10 ^ d"
  have P: "0 < P" by (simp add: P_def)
  have p: "pow10 (int d) = Inr (int P)" by (simp add: pow10_nat P_def)
  have q: "tdiv (int M) (int P) = int (M div P)" using P by (rule tdiv_nat)
  have r: "tmod (int M) (int P) = int (M mod P)" using P by (rule tmod_nat)
  have "d = 0 \<Longrightarrow> M div P = M" by (simp add: P_def)
  then have "fromMinor (int M) (numOf d) =
     Inr (if d = 0 then nat_digits M
          else nat_digits (M div P) @ CHR ''.'' # padStart d (CHR ''0'') (nat_digits (M mod P)))"
    by (simp add: fromMinor_def Let_def p q r toString_nat)
  then show ?thesis by (simp only: P_def)
qed

lemma padStart_digits:
  assumes "0 < d" "k < 10 ^ d"
  shows "length (padStart d (CHR ''0'') (nat_digits k)) = d"
    and "list_all isDigit (padStart d (CHR ''0'') (nat_digits k))"
    and "dec_val (padStart d (CHR ''0'') (nat_digits k)) = k"
proof -
  have "length (nat_digits k) \<le> d" using assms by (rule length_nat_digits)
  then show "length (padStart d (CHR ''0'') (nat_digits k)) = d"
    by (simp add: padStart_def)
  show "list_all isDigit (padStart d (CHR ''0'') (nat_digits k))"
    using nat_digits_all_digits [of k] by (auto simp: padStart_def list_all_iff isDigit_zero)
  show "dec_val (padStart d (CHR ''0'') (nat_digits k)) = k"
    by (simp only: padStart_def dec_val_padded dec_val_nat_digits)
qed

lemma spec_toMinor_exact:
  assumes "length F = d" "list_all isDigit F"
  shows "spec_toMinor \<lparr>sign = 1, int_digits = I, frac_digits = F\<rparr> d mode =
     int (dec_val I) * 10 ^ d + int (dec_val F)"
proof -
  have "take (d + 1) (F @ replicate (d + 1) (CHR ''0'')) = F @ [CHR ''0'']"
    using assms(1) by simp
  moreover have "take d (F @ [CHR ''0'']) = F" using assms(1) by simp
  moreover have "(F @ [CHR ''0'']) ! d = CHR ''0''" using assms(1) by (simp add: nth_append)
  ultimately show ?thesis
    by (simp add: spec_toMinor_def Let_def del: replicate.simps)
qed

lemma round_trip_nat:
  "\<exists>s. fromMinor (int M) (numOf d) = Inr s \<and> toMinor s (numOf d) opts = Inr (int M)"
proof (cases "d = 0")
  case True
  let ?s = "nat_digits M"
  have f: "fromMinor (int M) (numOf d) = Inr ?s" using True fromMinor_nat [of M d] by simp
  have "normalizeAmountInput ?s = Inr \<lparr>sign = 1, int_digits = ?s, frac_digits = []\<rparr>"
    using normalizeAmountInput_plain [OF isDigits_nat_digits, of M]
    by (simp add: stripLeadingZeros_nat_digits)
  then have "toMinor ?s (numOf d) opts =
      Inr (spec_toMinor \<lparr>sign = 1, int_digits = ?s, frac_digits = []\<rparr> d
            (case opts of None \<Rightarrow> Round | Some m \<Rightarrow> m))"
    by (rule toMinor_parsed)
  also have "\<dots> = Inr (int M)"
  proof -
    have "dec_val [] = 0" by (simp add: dec_val_def)
    then show ?thesis
      using True spec_toMinor_exact [of "[]" 0 ?s] by (simp add: dec_val_nat_digits)
  qed
  finally show ?thesis using f by blast
next
  case False
  then have d: "0 < d" by simp
  let ?I = "nat_digits (M div 10 ^ d)"
  let ?F = "padStart d (CHR ''0'') (nat_digits (M mod 10 ^ d))"
  let ?s = "?I @ CHR ''.'' # ?F"
  have m: "M mod 10 ^ d < 10 ^ d" by simp
  note F = padStart_digits [OF d m]
  have f: "fromMinor (int M) (numOf d) = Inr ?s" using False fromMinor_nat [of M d] by simp
  have "normalizeAmountInput ?s = Inr \<lparr>sign = 1, int_digits = ?I, frac_digits = ?F\<rparr>"
    using normalizeAmountInput_point [OF isDigits_nat_digits F(2), of "M div 10 ^ d"]
    by (simp add: stripLeadingZeros_nat_digits)
  then have "toMinor ?s (numOf d) opts =
      Inr (spec_toMinor \<lparr>sign = 1, int_digits = ?I, frac_digits = ?F\<rparr> d
            (case opts of None \<Rightarrow> Round | Some m \<Rightarrow> m))"
    by (rule toMinor_parsed)
  also have "\<dots> = Inr (int (dec_val ?I) * 10 ^ d + int (dec_val ?F))"
    using spec_toMinor_exact [OF F(1) F(2)] by simp
  also have "\<dots> = Inr (int (M div 10 ^ d) * 10 ^ d + int (M mod 10 ^ d))"
    by (simp only: F(3) dec_val_nat_digits)
  also have "\<dots> = Inr (int M)"
  proof -
    have "int (M div 10 ^ d) * 10 ^ d + int (M mod 10 ^ d)
        = int (M div 10 ^ d * 10 ^ d + M mod 10 ^ d)"
      by (simp only: of_nat_add of_nat_mult of_nat_power of_nat_numeral)
    also have "\<dots> = int M" by (simp only: div_mult_mod_eq)
    finally show ?thesis by (simp only:)
  qed
  finally show ?thesis using f by blast
qed

text \<open>
  Claim C2. For every non-negative integer \<open>m\<close> and every natural number \<open>d\<close>,
  \<open>fromMinor m d\<close> returns a string and \<open>toMinor\<close> of that string at \<open>d\<close> decimals
  returns \<open>m\<close>, whatever the rounding mode.
\<close>

theorem toMinor_fromMinor_round_trip:
  "0 \<le> m \<Longrightarrow> \<exists>s. fromMinor m (numOf d) = Inr s \<and> toMinor s (numOf d) opts = Inr m"
  using round_trip_nat [of "nat m" d opts] by simp

theorem toMinor_fromMinor_round_trip_witness:
  "(0::int) \<le> 1234567 \<and> (\<exists>s. fromMinor 1234567 (numOf 7) = Inr s \<and> toMinor s (numOf 7) None = Inr 1234567)"
  using toMinor_fromMinor_round_trip [of 1234567 7 None] by simp

subsection \<open>toMinor on a parsed amount\<close>

lemma dec_val_bound: "list_all isDigit s \<Longrightarrow> dec_val s < 10 ^ length s"
proof (induction s rule: rev_induct)
  case Nil
  then show ?case by (simp add: dec_val_def)
next
  case (snoc c s)
  then have "isDigit c" and "dec_val s < 10 ^ length s" by simp_all
  then have "digit_val c \<le> 9" and "dec_val s + 1 \<le> 10 ^ length s"
    by (auto simp: isDigit_def digit_val_def)
  then have "10 * dec_val s + digit_val c < 10 * (dec_val s + 1)" by simp
  also have "\<dots> \<le> 10 * 10 ^ length s"
    using \<open>dec_val s + 1 \<le> 10 ^ length s\<close> by (simp only: mult_le_mono2)
  finally show ?case by (simp add: dec_val_snoc)
qed

lemma dec_val_take_padded:
  assumes F: "list_all isDigit F"
  shows "dec_val (take d (F @ replicate d (CHR ''0''))) = dec_val F * 10 ^ d div 10 ^ length F"
proof (cases "length F \<le> d")
  case True
  then have "take d (F @ replicate d (CHR ''0'')) = F @ replicate (d - length F) (CHR ''0'')"
    by simp
  then have "dec_val (take d (F @ replicate d (CHR ''0''))) = dec_val F * 10 ^ (d - length F)"
    by (simp add: dec_val_append dec_val_zeros)
  moreover have "(10::nat) ^ d = 10 ^ (d - length F) * 10 ^ length F"
    using True by (simp add: power_add [symmetric])
  ultimately show ?thesis by simp
next
  case False
  then have l: "d < length F" by simp
  define P where "P = take d F"
  define S where "S = drop d F"
  have FS: "F = P @ S" by (simp add: P_def S_def)
  have lS: "length S = length F - d" by (simp add: S_def)
  have lP: "length P = d" using l by (simp add: P_def)
  have "list_all isDigit S" using F by (auto simp: S_def list_all_iff dest: in_set_dropD)
  then have b: "dec_val S < 10 ^ length S" by (rule dec_val_bound)
  have t: "take d (F @ replicate d (CHR ''0'')) = P" using l by (simp add: P_def)
  have "dec_val F = dec_val P * 10 ^ length S + dec_val S"
    by (simp add: FS dec_val_append)
  then have "dec_val F * 10 ^ d = (dec_val P * 10 ^ d) * 10 ^ length S + dec_val S * 10 ^ d"
    by (simp add: algebra_simps)
  moreover have "(10::nat) ^ length F = 10 ^ d * 10 ^ length S"
    using l by (simp add: lS power_add [symmetric])
  ultimately have "dec_val F * 10 ^ d div 10 ^ length F
      = ((dec_val P * 10 ^ length S + dec_val S) * 10 ^ d) div (10 ^ d * 10 ^ length S)"
    by (simp add: algebra_simps)
  also have "\<dots> = (dec_val P * 10 ^ length S + dec_val S) div 10 ^ length S"
    by simp
  also have "\<dots> = dec_val P" using b by simp
  finally show ?thesis unfolding t by simp
qed


lemma floor_magnitude:
  assumes F: "list_all isDigit (frac_digits n)"
  shows "\<lfloor>amount_magnitude n * 10 ^ d\<rfloor> =
     int (dec_val (int_digits n)) * 10 ^ d
     + int (dec_val (take d (frac_digits n @ replicate d (CHR ''0''))))"
proof -
  define vI where "vI = dec_val (int_digits n)"
  define vF where "vF = dec_val (frac_digits n)"
  define L where "L = length (frac_digits n)"
  have "amount_magnitude n * 10 ^ d
      = rat_of_int (int (vI * 10 ^ d)) + rat_of_nat (vF * 10 ^ d) / rat_of_nat (10 ^ L)"
    by (simp add: amount_magnitude_def vI_def vF_def L_def algebra_simps)
  then have "\<lfloor>amount_magnitude n * 10 ^ d\<rfloor>
      = int (vI * 10 ^ d) + \<lfloor>rat_of_nat (vF * 10 ^ d) / rat_of_nat (10 ^ L)\<rfloor>"
    by (simp only: int_add_floor)
  also have "\<lfloor>rat_of_nat (vF * 10 ^ d) / rat_of_nat (10 ^ L)\<rfloor> = int (vF * 10 ^ d div 10 ^ L)"
    by (rule floor_divide_of_nat_eq)
  also have "vF * 10 ^ d div 10 ^ L = dec_val (take d (frac_digits n @ replicate d (CHR ''0'')))"
    unfolding vF_def L_def using F by (rule dec_val_take_padded [symmetric])
  finally show ?thesis by (simp add: vI_def)
qed

lemma roundAdjust_Floor: "roundAdjust base sg Floor = base"
  by (simp add: roundAdjust_def)

lemma spec_toMinor_Floor:
  assumes "sign n = 1 \<or> sign n = - 1"
  shows "spec_toMinor n d Floor =
     sign n * (int (dec_val (int_digits n)) * 10 ^ d
               + int (dec_val (take d (frac_digits n @ replicate d (CHR ''0'')))))"
proof -
  have "take d (take (d + 1) (frac_digits n @ replicate (d + 1) (CHR ''0'')))
      = take d (frac_digits n @ replicate d (CHR ''0''))"
    using take_take_padded [of d "frac_digits n" "CHR ''0''"] by simp
  then show ?thesis
    using assms by (auto simp: spec_toMinor_def Let_def roundAdjust_Floor simp del: replicate.simps)
qed

text \<open>
  Claim C3. For every input that parses and every natural number \<open>d\<close> of decimals,
  \<open>toMinor\<close> pads or truncates the parsed fraction to exactly \<open>d + 1\<close> digits, keeps
  the first \<open>d\<close> as the retained fraction, uses digit \<open>d + 1\<close> only through its being
  zero or not, forms \<open>base = integer * 10^d + retained\<close>, applies
  \<open>roundAdjust base 1 mode\<close> iff the indicator is not zero, and negates last when the
  parsed sign is negative. With mode Floor the result is the sign times the truncated
  unsigned magnitude, \<open>sign * \<lfloor>magnitude * 10^d\<rfloor>\<close>: on \<open>-1.2345\<close> at 3 decimals it is
  \<open>-1234\<close>, where the floor of the signed value is \<open>-1235\<close>.
\<close>

theorem toMinor_pad_round_negate:
  assumes "normalizeAmountInput human = Inr n"
  shows "toMinor human (numOf d) opts =
       Inr (spec_toMinor n d (case opts of None \<Rightarrow> Round | Some m \<Rightarrow> m))
     \<and> length (take (d + 1) (frac_digits n @ replicate (d + 1) (CHR ''0''))) = d + 1
     \<and> toMinor human (numOf d) (Some Floor) = Inr (sign n * \<lfloor>amount_magnitude n * 10 ^ d\<rfloor>)
     \<and> normalizeAmountInput ''-1.2345'' =
         Inr \<lparr>sign = - 1, int_digits = ''1'', frac_digits = ''2345''\<rparr>
     \<and> toMinor ''-1.2345'' (numOf 3) (Some Floor) = Inr (- 1234)
     \<and> \<lfloor>- amount_magnitude \<lparr>sign = - 1, int_digits = ''1'', frac_digits = ''2345''\<rparr> * 10 ^ 3\<rfloor>
         = - 1235"
proof -
  note d = normalizeAmountInput_digits [OF assms]
  have a: "toMinor human (numOf d) opts =
       Inr (spec_toMinor n d (case opts of None \<Rightarrow> Round | Some m \<Rightarrow> m))"
    using assms by (rule toMinor_parsed)
  have b: "length (take (d + 1) (frac_digits n @ replicate (d + 1) (CHR ''0''))) = d + 1"
    by simp
  have "toMinor human (numOf d) (Some Floor) = Inr (spec_toMinor n d Floor)"
    using toMinor_parsed [OF assms, of d "Some Floor"] by simp
  then have c: "toMinor human (numOf d) (Some Floor) = Inr (sign n * \<lfloor>amount_magnitude n * 10 ^ d\<rfloor>)"
    by (simp only: spec_toMinor_Floor [OF d(3)] floor_magnitude [OF d(2)])
  have e: "toMinor ''-1.2345'' (numOf 3) (Some Floor) = Inr (- 1234)"
    by code_simp
  have "amount_magnitude \<lparr>sign = - 1, int_digits = ''1'', frac_digits = ''2345''\<rparr>
      = 12345 / 10000"
    by (simp add: amount_magnitude_def dec_val_def digit_val_def)
  moreover have "\<lfloor>- (12345 / 10000 :: rat) * 10 ^ 3\<rfloor> = - 1235"
    by code_simp
  ultimately
  have f: "\<lfloor>- amount_magnitude \<lparr>sign = - 1, int_digits = ''1'', frac_digits = ''2345''\<rparr> * 10 ^ 3\<rfloor>
         = - 1235"
    by (simp only:)
  have g: "normalizeAmountInput ''-1.2345'' =
         Inr \<lparr>sign = - 1, int_digits = ''1'', frac_digits = ''2345''\<rparr>"
    by code_simp
  from a b c e f g show ?thesis by (simp only: simp_thms)
qed

theorem toMinor_pad_round_negate_witness:
  "normalizeAmountInput ''-1.2345'' = Inr \<lparr>sign = - 1, int_digits = ''1'', frac_digits = ''2345''\<rparr>
   \<and> toMinor ''-1.2345'' (numOf 3) None = Inr (- 1235)"
proof -
  have p: "normalizeAmountInput ''-1.2345'' = Inr \<lparr>sign = - 1, int_digits = ''1'', frac_digits = ''2345''\<rparr>"
    by code_simp
  have v: "spec_toMinor \<lparr>sign = - 1, int_digits = ''1'', frac_digits = ''2345''\<rparr> 3 Round = - 1235"
    by code_simp
  from toMinor_pad_round_negate [OF p, of 3 None]
  have "toMinor ''-1.2345'' (numOf 3) None =
      Inr (spec_toMinor \<lparr>sign = - 1, int_digits = ''1'', frac_digits = ''2345''\<rparr> 3
            (case None of None \<Rightarrow> Round | Some m \<Rightarrow> m))"
    by (rule conjunct1)
  with p v show ?thesis by simp
qed

subsection \<open>priceRatioDecimals\<close>

lemma priceRatioDecimals_parsed:
  assumes "normalizeAmountInput priceStr = Inr n"
  shows "priceRatioDecimals (numOf q) priceStr =
     (if sign n < 0 then Inl NegativePrice
      else Inr \<lparr>num = int (dec_val (int_digits n)) * 10 ^ q
                      + int (dec_val (take q (frac_digits n @ replicate q (CHR ''0'')))),
                den = 10 ^ q\<rparr>)"
proof -
  define T where "T = take q (frac_digits n @ replicate q (CHR ''0''))"
  have I: "isDigits (int_digits n)" and F: "list_all isDigit (frac_digits n)"
    using normalizeAmountInput_digits [OF assms] by simp_all
  have s: "slice (frac_digits n @ replicate q (CHR ''0'')) 0 (int q) = T"
    by (simp only: slice_0 T_def)
  have lT: "length T = q" by (simp add: T_def)
  have "list_all isDigit T" unfolding T_def using F by (rule take_padded_digits)
  with I have "isDigits (int_digits n @ T)" by (simp add: isDigits_def)
  then have "BigInt_str (int_digits n @ T) = Inr (int (dec_val (int_digits n @ T)))"
    by (rule BigInt_str_digits)
  also have "dec_val (int_digits n @ T) = dec_val (int_digits n) * 10 ^ q + dec_val T"
    by (simp add: dec_val_append lT)
  finally have b: "BigInt_str (int_digits n @ T)
      = Inr (int (dec_val (int_digits n)) * 10 ^ q + int (dec_val T))"
    by simp
  have "priceRatioDecimals (numOf q) priceStr =
     (if sign n < 0 then Inl NegativePrice
      else Inr \<lparr>num = int (dec_val (int_digits n)) * 10 ^ q + int (dec_val T), den = 10 ^ q\<rparr>)"
    using assms by (simp add: priceRatioDecimals_def Let_def s b pow10_nat)
  then show ?thesis by (simp only: T_def)
qed

text \<open>
  Claim C9. For a price string that parses and a natural number \<open>q\<close> of quote
  decimals, \<open>priceRatioDecimals q priceStr\<close> fails iff the parsed sign is negative;
  otherwise the fraction is padded or truncated to exactly \<open>q\<close> digits (truncated,
  never rounded: the numerator is \<open>\<lfloor>price * 10^q\<rfloor>\<close>), the numerator is
  \<open>integer * 10^q + fraction\<close> and the denominator is \<open>10^q\<close>; the numerator is not
  negative and the denominator is positive; \<open>priceRatioDecimals 2 "5.4321"\<close> is
  \<open>543 / 100\<close>.
\<close>

theorem priceRatioDecimals_truncates:
  assumes "normalizeAmountInput priceStr = Inr n"
  shows "(isl (priceRatioDecimals (numOf q) priceStr) \<longleftrightarrow> sign n < 0)
     \<and> (\<not> sign n < 0 \<longrightarrow> priceRatioDecimals (numOf q) priceStr =
           Inr \<lparr>num = int (dec_val (int_digits n)) * 10 ^ q
                       + int (dec_val (take q (frac_digits n @ replicate q (CHR ''0'')))),
                 den = 10 ^ q\<rparr>)
     \<and> (\<not> sign n < 0 \<longrightarrow> priceRatioDecimals (numOf q) priceStr =
           Inr \<lparr>num = \<lfloor>amount_magnitude n * 10 ^ q\<rfloor>, den = 10 ^ q\<rparr>)
     \<and> (\<forall>r. priceRatioDecimals (numOf q) priceStr = Inr r \<longrightarrow> 0 \<le> num r \<and> 0 < den r)
     \<and> priceRatioDecimals (numOf 2) ''5.4321'' = Inr \<lparr>num = 543, den = 100\<rparr>"
proof -
  note p = priceRatioDecimals_parsed [OF assms, of q]
  have F: "list_all isDigit (frac_digits n)"
    using normalizeAmountInput_digits [OF assms] by simp
  have a: "isl (priceRatioDecimals (numOf q) priceStr) \<longleftrightarrow> sign n < 0"
    by (simp add: p)
  have b: "\<not> sign n < 0 \<longrightarrow> priceRatioDecimals (numOf q) priceStr =
           Inr \<lparr>num = int (dec_val (int_digits n)) * 10 ^ q
                       + int (dec_val (take q (frac_digits n @ replicate q (CHR ''0'')))),
                 den = 10 ^ q\<rparr>"
    by (simp add: p)
  have c: "\<not> sign n < 0 \<longrightarrow> priceRatioDecimals (numOf q) priceStr =
           Inr \<lparr>num = \<lfloor>amount_magnitude n * 10 ^ q\<rfloor>, den = 10 ^ q\<rparr>"
    using b by (simp only: floor_magnitude [OF F])
  have d: "\<forall>r. priceRatioDecimals (numOf q) priceStr = Inr r \<longrightarrow> 0 \<le> num r \<and> 0 < den r"
    by (auto simp: p split: if_splits)
  have e: "priceRatioDecimals (numOf 2) ''5.4321'' = Inr \<lparr>num = 543, den = 100\<rparr>"
    by code_simp
  from a b c d e show ?thesis by (simp only: simp_thms)
qed

theorem priceRatioDecimals_truncates_witness:
  "normalizeAmountInput ''5.4321'' = Inr \<lparr>sign = 1, int_digits = ''5'', frac_digits = ''4321''\<rparr>
   \<and> \<not> isl (priceRatioDecimals (numOf 2) ''5.4321'')
   \<and> priceRatioDecimals (numOf 2) ''5.4321'' = Inr \<lparr>num = 543, den = 100\<rparr>"
proof -
  have p: "normalizeAmountInput ''5.4321'' = Inr \<lparr>sign = 1, int_digits = ''5'', frac_digits = ''4321''\<rparr>"
    by code_simp
  from priceRatioDecimals_truncates [OF p, of 2] p show ?thesis
    by (simp add: dec_val_def digit_val_def)
qed

subsection \<open>divToDecimalString\<close>

lemma tdiv_nonneg_nonneg: "0 \<le> a \<Longrightarrow> 0 \<le> b \<Longrightarrow> 0 \<le> tdiv a b"
  by (simp add: tdiv_def sgn_if pos_imp_zdiv_nonneg_iff)

lemma nat_max_diff: "nat (max (int a - int b) 0) = a - b"
  by (simp add: max_def) linarith

lemma slice_0_0: "slice s 0 0 = []"
  by (simp add: slice_def relIndex_def)

lemma slice_neg: "0 < sc \<Longrightarrow> slice s 0 (- int sc) = take (length s - sc) s"
  by (simp add: slice_def relIndex_def Let_def nat_max_diff)

lemma slice_from_neg: "0 < sc \<Longrightarrow> slice_from s (- int sc) = drop (length s - sc) s"
  by (simp add: slice_from_def relIndex_def nat_max_diff)

lemma divToDecimalString_form:
  assumes "d \<noteq> 0"
  shows "\<exists>head rest. divToDecimalString n d (numOf sc) =
        Inr ((if (n < 0) \<noteq> (d < 0) then ''-'' else '''') @ head @ rest)
      \<and> head \<noteq> [] \<and> list_all isDigit head"
proof -
  define k where "k = nat (tdiv (absBig n * 10 ^ sc) (absBig d))"
  define s where "s = padStart (sc + 1) (CHR ''0'') (nat_digits k)"
  define head where "head = orElse (slice s 0 (- int sc)) ''0''"
  define rest where "rest = (if sc > 0 then ''.'' @ slice_from s (- int sc) else '''')"
  have "0 \<le> tdiv (absBig n * 10 ^ sc) (absBig d)"
    by (rule tdiv_nonneg_nonneg) (simp_all add: absBig_abs)
  then have i: "tdiv (absBig n * 10 ^ sc) (absBig d) = int k" by (simp add: k_def)
  have sd: "list_all isDigit s"
    using nat_digits_all_digits [of k] by (auto simp: s_def padStart_def list_all_iff isDigit_zero)
  have sl: "sc + 1 \<le> length s" by (simp add: s_def padStart_def)
  have hd: "list_all isDigit head"
  proof (cases "sc = 0")
    case True
    then show ?thesis by (simp add: head_def slice_0_0 orElse_def isDigit_zero)
  next
    case False
    have "list_all isDigit (take (length s - sc) s)" using sd by (rule list_all_take)
    with False show ?thesis by (simp add: head_def slice_neg orElse_def isDigit_zero)
  qed
  have hn: "head \<noteq> []" by (simp add: head_def orElse_def)
  have "divToDecimalString n d (numOf sc) =
        Inr ((if (n < 0) \<noteq> (d < 0) then ''-'' else '''') @ head @ rest)"
    using assms
    by (simp add: divToDecimalString_def Let_def pow10_nat i toString_nat
        s_def head_def rest_def)
  with hn hd show ?thesis by blast
qed


lemma divToDecimalString_minus:
  assumes "d \<noteq> 0"
  shows "\<exists>s. divToDecimalString n d (numOf sc) = Inr s \<and> s \<noteq> []
           \<and> (hd s = CHR ''-'' \<longleftrightarrow> (n < 0) \<noteq> (d < 0))"
proof -
  from divToDecimalString_form [OF assms, of n sc] obtain head rest where
    e: "divToDecimalString n d (numOf sc) =
        Inr ((if (n < 0) \<noteq> (d < 0) then ''-'' else '''') @ head @ rest)"
    and h: "head \<noteq> []" "list_all isDigit head"
    by blast
  from h have "isDigit (hd head)" by (cases head) auto
  then have "hd head \<noteq> CHR ''-''" by (simp add: isDigit_not_special)
  with h(1) have "hd (((if (n < 0) \<noteq> (d < 0) then ''-'' else '''') @ head @ rest)) = CHR ''-''
      \<longleftrightarrow> (n < 0) \<noteq> (d < 0)"
    by simp
  with e h(1) show ?thesis by auto
qed

lemma divToDecimalString_zero:
  assumes "d < 0" "0 < sc"
  shows "divToDecimalString 0 d (numOf sc) = Inr (''-0.'' @ replicate sc (CHR ''0''))"
proof -
  have p: "padStart (Suc sc) (CHR ''0'') (nat_digits 0) = CHR ''0'' # replicate sc (CHR ''0'')"
    by (simp add: padStart_def nat_digits_zero replicate_append_same)
  have t: "toString 0 = nat_digits 0" using toString_nat [of 0] by simp
  show ?thesis
    using assms
    by (simp add: divToDecimalString_def Let_def pow10_nat tdiv_def absBig_abs t p
        slice_neg slice_from_neg orElse_def)
qed

lemma fromMinor_zero:
  "fromMinor 0 (numOf k) = Inr (if k = 0 then ''0'' else ''0.'' @ replicate k (CHR ''0''))"
proof -
  have "padStart k (CHR ''0'') ''0'' = replicate k (CHR ''0'')" if "0 < k"
    using that by (cases k) (simp_all add: padStart_def replicate_append_same)
  then show ?thesis
    using fromMinor_nat [of 0 k] by (auto simp: nat_digits_zero)
qed

text \<open>
  Claim C10. For a non-zero denominator, the string returned by
  \<open>divToDecimalString\<close> begins with \<open>-\<close> exactly when the signs of numerator and
  denominator differ, also when the value shown is zero: for every negative
  denominator and every scale \<open>s > 0\<close>, \<open>divToDecimalString 0 d s\<close> is \<open>-0.\<close> followed
  by \<open>s\<close> zeros. \<open>fromMinor\<close> of a zero amount has no minus sign: it is \<open>0\<close>, or
  \<open>0.\<close> followed by the zeros.
\<close>

theorem divToDecimalString_minus_sign:
  "(d \<noteq> 0 \<longrightarrow> (\<exists>s. divToDecimalString n d (numOf sc) = Inr s \<and> s \<noteq> []
                    \<and> (hd s = CHR ''-'' \<longleftrightarrow> (n < 0) \<noteq> (d < 0))))
   \<and> (d < 0 \<and> 0 < sc \<longrightarrow>
         divToDecimalString 0 d (numOf sc) = Inr (''-0.'' @ replicate sc (CHR ''0'')))
   \<and> fromMinor 0 (numOf k) = Inr (if k = 0 then ''0'' else ''0.'' @ replicate k (CHR ''0''))"
  using divToDecimalString_minus [of d n sc] divToDecimalString_zero [of d sc] fromMinor_zero [of k]
  by simp

theorem divToDecimalString_minus_sign_witness:
  "(- 3 :: int) \<noteq> 0 \<and> (- 3 :: int) < 0 \<and> (0::nat) < 2
   \<and> divToDecimalString 0 (- 3) (numOf 2) = Inr ''-0.00''
   \<and> fromMinor 0 (numOf 2) = Inr ''0.00''"
  using divToDecimalString_minus_sign [of "- 3" 0 2 2] by (simp add: numeral_2_eq_2)

end
